theory Spec2Isabelle
  imports Complex_Main "HOL-Library.Log_Nat" "HOL-Library.List_Lexorder" "HOL-Library.Char_ord"
begin

section \<open>Unified task manager (combined_app.py)\<close>

text \<open>
  The program is one Python script that the UI framework re-runs on every interaction.
  The session's task list is the only state that survives a run. The script is modelled
  as a function from the widget values of one run and the session state to the new
  session state and the list of elements it renders.

  Python strings are modelled as \<^typ>\<open>string\<close>, Python floats as the rational value of
  the double they hold, Python dictionaries with a fixed key set as records.
\<close>

subsection \<open>Data model\<close>

text \<open>The dictionary built at lines 118-125: six fixed keys.\<close>

record task =
  description :: string
  estimated_hours :: rat
  due_date :: string
  category :: string
  priority :: string
  status :: string

text \<open>A calendar date as the date widget returns it (year 1..9999, month, day).\<close>

record date =
  year :: nat
  month :: nat
  day :: nat

definition digit :: "nat \<Rightarrow> char" where
  "digit n = char_of (48 + n mod 10)"

text \<open>\<open>str(due_date)\<close>: the ISO form \<open>YYYY-MM-DD\<close>, zero padded.\<close>

definition str_date :: "date \<Rightarrow> string" where
  "str_date d =
     [digit (year d div 1000), digit (year d div 100), digit (year d div 10), digit (year d)]
     @ ''-'' @ [digit (month d div 10), digit (month d)]
     @ ''-'' @ [digit (day d div 10), digit (day d)]"

text \<open>The values of the widgets of the Add Task form in one run (lines 109-115).\<close>

record add_task_form =
  f_description :: string
  f_estimated_hours :: rat
  f_due_date :: date
  f_category :: string
  f_priority :: string
  f_status :: string
  submitted :: bool

text \<open>What a run renders. Only the elements the script can produce are listed,
  plus \<open>ErrorMsg\<close> for an error box, which no path of the script produces.\<close>

datatype metric = Count nat | Percent rat

text \<open>One row of the classification report shown at line 165: the name of a class and
  its four entries.\<close>

record report_row =
  row_name :: string
  row_precision :: rat
  row_recall :: rat
  row_f1 :: rat
  row_support :: nat

datatype ui =
    Metric string metric
  | PieChart string "(string \<times> nat) list"
  | Info string
  | Success string
  | ErrorMsg string
  | DataFrame "task list"
  | ReportTable "report_row list"
  | ConfusionMatrixPlot "nat list list" "string list"

subsection \<open>Add Task (lines 106-127)\<close>

definition new_task :: "add_task_form \<Rightarrow> task" where
  "new_task f = \<lparr> description = f_description f,
                  estimated_hours = f_estimated_hours f,
                  due_date = str_date (f_due_date f),
                  category = f_category f,
                  priority = f_priority f,
                  status = f_status f \<rparr>"

text \<open>\<open>if submitted and description:\<close> a Python string is true when it is not empty.\<close>

definition add_task_page :: "add_task_form \<Rightarrow> task list \<Rightarrow> task list \<times> ui list" where
  "add_task_page f tasks =
     (if submitted f \<and> f_description f \<noteq> []
      then (tasks @ [new_task f], [Success ''Task added successfully!''])
      else (tasks, []))"

subsection \<open>Task List (lines 130-144)\<close>

text \<open>The two boolean-mask selections of lines 138-141, each skipped for \<open>"All"\<close>.\<close>

definition apply_filters :: "string \<Rightarrow> string \<Rightarrow> task list \<Rightarrow> task list" where
  "apply_filters status_filter priority_filter df =
     (let filtered_df = df;
          filtered_df = (if status_filter \<noteq> ''All''
                         then filter (\<lambda>t. status t = status_filter) filtered_df
                         else filtered_df);
          filtered_df = (if priority_filter \<noteq> ''All''
                         then filter (\<lambda>t. priority t = priority_filter) filtered_df
                         else filtered_df)
      in filtered_df)"

definition tasks_page :: "string \<Rightarrow> string \<Rightarrow> task list \<Rightarrow> ui list" where
  "tasks_page status_filter priority_filter tasks =
     (if tasks \<noteq> []
      then [DataFrame (apply_filters status_filter priority_filter tasks)]
      else [Info ''No tasks available. Add some from the 'Add Task' section.''])"

text \<open>The rows of the table a run shows (none when no table is shown).\<close>

fun displayed_rows :: "ui list \<Rightarrow> task list" where
  "displayed_rows [] = []"
| "displayed_rows (DataFrame rows # _) = rows"
| "displayed_rows (_ # es) = displayed_rows es"

subsection \<open>Python floats\<close>

text \<open>
  A Python float is an IEEE 754 double. It is modelled by its exact rational value; every
  arithmetic operation computes the exact result and rounds it to the nearest double, ties
  to the even significand. The exponent range is not modelled (no overflow, no subnormal
  numbers): the quotients below lie between \<open>1 / length tasks\<close> and \<open>100\<close>.
\<close>

datatype py_error = ZeroDivisionError | ValueError | IndexError

definition pow2 :: "int \<Rightarrow> rat" where
  "pow2 e = (if 0 \<le> e then 2 ^ nat e else 1 / 2 ^ nat (- e))"

text \<open>Rounding to the nearest integer, a tie to the even one.\<close>

definition round_half_even :: "rat \<Rightarrow> int" where
  "round_half_even x =
     (let f = \<lfloor>x\<rfloor>; r = x - of_int f
      in if r < 1 / 2 then f
         else if 1 / 2 < r then f + 1
         else if even f then f else f + 1)"

text \<open>The binary exponent of a positive rational: \<open>2 ^ e \<le> x < 2 ^ (e + 1)\<close>.\<close>

definition ilog2 :: "rat \<Rightarrow> int" where
  "ilog2 x =
     (let e = bitlen (fst (quotient_of x)) - bitlen (snd (quotient_of x))
      in if pow2 e \<le> x then e else e - 1)"

text \<open>The nearest double: 53 significant bits.\<close>

definition to_double :: "rat \<Rightarrow> rat" where
  "to_double x =
     (if x = 0 then 0
      else let e = ilog2 \<bar>x\<bar> - 52
           in sgn x * of_int (round_half_even (\<bar>x\<bar> / pow2 e)) * pow2 e)"

text \<open>\<open>a / b\<close> on two integers: the correctly rounded quotient, or ZeroDivisionError.\<close>

definition true_div :: "nat \<Rightarrow> nat \<Rightarrow> py_error + rat" where
  "true_div a b =
     (if b = 0 then Inl ZeroDivisionError else Inr (to_double (of_nat a / of_nat b)))"

definition float_mul :: "rat \<Rightarrow> rat \<Rightarrow> rat" where
  "float_mul x y = to_double (x * y)"

text \<open>\<open>round(x, ndigits)\<close> on a float: the exact value of \<open>x\<close> is rounded to
  \<open>ndigits\<close> decimals, a tie to the even digit, and the decimal is converted back to the
  nearest double.\<close>

definition py_round :: "rat \<Rightarrow> nat \<Rightarrow> rat" where
  "py_round x ndigits =
     to_double (of_int (round_half_even (x * 10 ^ ndigits)) / 10 ^ ndigits)"

subsection \<open>Completion rate (lines 55-59)\<close>

definition completed_count :: "task list \<Rightarrow> nat" where
  "completed_count tasks = length (filter (\<lambda>task. status task = ''Completed'') tasks)"

definition calculate_completion_rate :: "task list \<Rightarrow> py_error + rat" where
  "calculate_completion_rate tasks =
     (if tasks = [] then Inr 0
      else case true_div (completed_count tasks) (length tasks) of
             Inl err \<Rightarrow> Inl err
           | Inr q \<Rightarrow> Inr (py_round (float_mul q 100) 2))"

text \<open>The formula as the specification words it: \<open>round(100 * completed_count /
  total_count, 2)\<close>, and \<open>0\<close> for the empty sequence. It is compared with the function
  above.\<close>

definition completion_rate_spec :: "task list \<Rightarrow> rat" where
  "completion_rate_spec tasks =
     (if tasks = [] then 0
      else py_round (to_double (of_nat (100 * completed_count tasks) / of_nat (length tasks))) 2)"

subsection \<open>Text preprocessing (lines 22-26)\<close>

text \<open>
  Characters are the code points below 256. \<open>str.lower\<close> maps \<open>A-Z\<close> to \<open>a-z\<close>; what it
  does to the other characters is not modelled, because the substitution that follows
  replaces every character outside \<open>[A-Za-z]\<close> by a space, and no other character below
  256 has a lower case inside \<open>[A-Za-z]\<close>.
\<close>

definition is_upper :: "char \<Rightarrow> bool" where
  "is_upper c = (65 \<le> (of_char c :: nat) \<and> (of_char c :: nat) \<le> 90)"

definition is_lower :: "char \<Rightarrow> bool" where
  "is_lower c = (97 \<le> (of_char c :: nat) \<and> (of_char c :: nat) \<le> 122)"

definition lower_char :: "char \<Rightarrow> char" where
  "lower_char c = (if is_upper c then char_of ((of_char c :: nat) + 32) else c)"

definition py_lower :: "string \<Rightarrow> string" where
  "py_lower s = map lower_char s"

text \<open>\<open>re.sub(r"[^A-Za-z]", " ", s)\<close>\<close>

definition sub_non_letters :: "string \<Rightarrow> string" where
  "sub_non_letters s = map (\<lambda>c. if is_upper c \<or> is_lower c then c else CHR '' '') s"

text \<open>The white space \<open>str.split()\<close> splits at: tab to carriage return, the four
  separators \<open>0x1c-0x1f\<close>, the space, \<open>0x85\<close> and \<open>0xa0\<close>.\<close>

definition is_space :: "char \<Rightarrow> bool" where
  "is_space c = (let n = (of_char c :: nat)
                 in (9 \<le> n \<and> n \<le> 13) \<or> (28 \<le> n \<and> n \<le> 32) \<or> n = 133 \<or> n = 160)"

text \<open>\<open>s.split()\<close>: the maximal runs of characters that are not white space.
  \<open>cur\<close> is the run read so far.\<close>

fun split_from :: "string \<Rightarrow> string \<Rightarrow> string list" where
  "split_from cur [] = (if cur = [] then [] else [cur])"
| "split_from cur (c # cs) =
     (if is_space c
      then (if cur = [] then split_from [] cs else cur # split_from [] cs)
      else split_from (cur @ [c]) cs)"

definition py_split :: "string \<Rightarrow> string list" where
  "py_split s = split_from [] s"

text \<open>\<open>" ".join(tokens)\<close>\<close>

fun py_join :: "string list \<Rightarrow> string" where
  "py_join [] = []"
| "py_join [w] = w"
| "py_join (w # ws) = w @ '' '' @ py_join ws"

text \<open>
  The stemmer (\<open>PorterStemmer().stem\<close>) and the stop word list
  (\<open>stopwords.words('english')\<close>) belong to the NLTK library, not to this program; they
  are parameters of the model.
\<close>

definition preprocess_text :: "(string \<Rightarrow> string) \<Rightarrow> string list \<Rightarrow> string \<Rightarrow> string" where
  "preprocess_text stem stopwords text =
     (let text = sub_non_letters (py_lower text);
          tokens = py_split text;
          tokens = map stem (filter (\<lambda>word. word \<notin> set stopwords) tokens)
      in py_join tokens)"

text \<open>A sample configuration: a stemmer that only strips plural endings the way step 1a
  of Porter's algorithm does (\<open>sses \<rightarrow> ss\<close>, \<open>ies \<rightarrow> i\<close>, \<open>ss \<rightarrow> ss\<close>, \<open>s \<rightarrow>\<close> nothing),
  and four of the English stop words.\<close>

definition ends_with :: "string \<Rightarrow> string \<Rightarrow> bool" where
  "ends_with suffix w =
     (length suffix \<le> length w \<and> drop (length w - length suffix) w = suffix)"

definition plural_stem :: "string \<Rightarrow> string" where
  "plural_stem w =
     (if ends_with ''sses'' w then take (length w - 2) w
      else if ends_with ''ies'' w then take (length w - 2) w
      else if ends_with ''ss'' w then w
      else if ends_with ''s'' w then take (length w - 1) w
      else w)"

definition sample_stopwords :: "string list" where
  "sample_stopwords = [''the'', ''will'', ''is'', ''a'']"

subsection \<open>Recommended user (lines 52-53)\<close>

text \<open>
  \<open>df['assigned_to'].value_counts().idxmin()\<close>. The two operations belong to pandas and
  are modelled here. \<open>value_counts\<close> counts each distinct value, the values in the order
  of their first appearance, and sorts the counts in descending order, values with equal
  counts keeping their order. \<open>idxmin\<close> returns the label of the first smallest entry and
  raises ValueError on an empty series. The column holds no missing value: the rows with
  one were dropped at line 152.
\<close>

fun unique :: "'a list \<Rightarrow> 'a list" where
  "unique [] = []"
| "unique (x # xs) = x # unique (filter (\<lambda>y. y \<noteq> x) xs)"

definition value_counts :: "'a list \<Rightarrow> ('a \<times> nat) list" where
  "value_counts xs =
     sort_key (\<lambda>p. - int (snd p)) (map (\<lambda>v. (v, count_list xs v)) (unique xs))"

fun idxmin :: "('a \<times> nat) list \<Rightarrow> py_error + 'a" where
  "idxmin [] = Inl ValueError"
| "idxmin (p # ps) =
     Inr (fst (foldl (\<lambda>best q. if snd q < snd best then q else best) p ps))"

definition recommend_user :: "'a list \<Rightarrow> py_error + 'a" where
  "recommend_user assigned_to = idxmin (value_counts assigned_to)"

subsection \<open>Tuned classifier (lines 38-50)\<close>

record xgb_params =
  n_estimators :: int
  max_depth :: int
  learning_rate :: rat

text \<open>The finished trials of a study: the parameters of each and the value of its
  objective.\<close>

type_synonym trials = "(xgb_params \<times> rat) list"

text \<open>
  The search library (optuna) and the classifier (XGBoost) are not part of this program.
  A trial object is modelled by the sampler behind it: given the finished trials, a
  parameter name and two bounds, it proposes a value. Fitting a classifier and scoring it
  (\<open>model.score\<close>, the accuracy on the data passed) are parameters \<open>fit\<close> and \<open>score\<close>.
\<close>

record sampler =
  suggest_int :: "trials \<Rightarrow> string \<Rightarrow> int \<Rightarrow> int \<Rightarrow> int"
  suggest_float :: "trials \<Rightarrow> string \<Rightarrow> rat \<Rightarrow> rat \<Rightarrow> rat"

text \<open>The inner function \<open>objective(trial)\<close> of lines 39-47; it returns the parameters it
  drew together with its value, which is what the study records of a trial.\<close>

definition objective ::
  "sampler \<Rightarrow> (xgb_params \<Rightarrow> 'x \<Rightarrow> 'y \<Rightarrow> 'm) \<Rightarrow> ('m \<Rightarrow> 'x \<Rightarrow> 'y \<Rightarrow> rat) \<Rightarrow> 'x \<Rightarrow> 'y
     \<Rightarrow> trials \<Rightarrow> xgb_params \<times> rat" where
  "objective trial fit score X y finished =
     (let params = \<lparr> n_estimators = suggest_int trial finished ''n_estimators'' 50 200,
                      max_depth = suggest_int trial finished ''max_depth'' 2 10,
                      learning_rate = suggest_float trial finished ''learning_rate''
                                        (to_double (1 / 100)) (to_double (3 / 10)) \<rparr>;
          model = fit params X y
      in (params, score model X y))"

text \<open>\<open>study.optimize(objective, n_trials)\<close>: one trial after the other.\<close>

fun optimize :: "(trials \<Rightarrow> xgb_params \<times> rat) \<Rightarrow> nat \<Rightarrow> trials \<Rightarrow> trials" where
  "optimize obj 0 finished = finished"
| "optimize obj (Suc n) finished = optimize obj n (finished @ [obj finished])"

text \<open>\<open>study.best_params\<close> of a maximising study: the first trial with the largest
  value; ValueError when no trial has finished.\<close>

fun best_trial :: "trials \<Rightarrow> py_error + (xgb_params \<times> rat)" where
  "best_trial [] = Inl ValueError"
| "best_trial (t # ts) =
     Inr (foldl (\<lambda>best t'. if snd best < snd t' then t' else best) t ts)"

definition optimize_xgb ::
  "sampler \<Rightarrow> (xgb_params \<Rightarrow> 'x \<Rightarrow> 'y \<Rightarrow> 'm) \<Rightarrow> ('m \<Rightarrow> 'x \<Rightarrow> 'y \<Rightarrow> rat) \<Rightarrow> 'x \<Rightarrow> 'y
     \<Rightarrow> py_error + 'm" where
  "optimize_xgb trial fit score X y =
     (case best_trial (optimize (objective trial fit score X y) 10 []) of
        Inl err \<Rightarrow> Inl err
      | Inr best \<Rightarrow> Inr (fit (fst best) X y))"

text \<open>A sample sampler, which looks at the finished trials: an integer is the lower
  bound plus the number of finished trials, capped at the upper bound; a float is the
  lower bound in the first trial and the upper bound afterwards.\<close>

definition stepping_sampler :: sampler where
  "stepping_sampler =
     \<lparr> suggest_int = (\<lambda>finished name low high. min high (low + int (length finished))),
       suggest_float = (\<lambda>finished name low high. if finished = [] then low else high) \<rparr>"

subsection \<open>Dashboard (lines 77-103)\<close>

text \<open>The three metrics, then the two pie charts of \<open>value_counts\<close> when the table built
  from the task list is not empty, otherwise the information box.\<close>

definition dashboard_page :: "task list \<Rightarrow> py_error + ui list" where
  "dashboard_page tasks =
     (let total_tasks = length tasks;
          completed_tasks = completed_count tasks
      in case calculate_completion_rate tasks of
           Inl err \<Rightarrow> Inl err
         | Inr completion_rate \<Rightarrow>
             Inr ([Metric ''Total Tasks'' (Count total_tasks),
                   Metric ''Completed Tasks'' (Count completed_tasks),
                   Metric ''Completion Rate'' (Percent completion_rate)]
                  @ (if tasks \<noteq> []
                     then [PieChart ''Task Distribution by Category''
                             (value_counts (map category tasks)),
                           PieChart ''Task Priority Distribution''
                             (value_counts (map priority tasks))]
                     else [Info ''No task data available to display graphs.''])))"

subsection \<open>Classification metrics\<close>

text \<open>
  \<open>classification_report\<close> and \<open>confusion_matrix\<close> belong to scikit-learn and are modelled
  here as the script calls them: integer labels, \<open>labels\<close> given and without repetition,
  \<open>output_dict=True\<close>. Both raise ValueError when the two label lists differ in length.

  \<open>confusion_matrix\<close> raises ValueError for an empty \<open>labels\<close>, returns the zero matrix for
  an empty \<open>y_true\<close>, raises ValueError when no label of \<open>labels\<close> occurs in \<open>y_true\<close>, and
  otherwise returns, for the labels in the order given, the number of samples of true
  label \<open>i\<close> predicted as \<open>j\<close>.
\<close>

definition confusion_matrix :: "nat list \<Rightarrow> nat list \<Rightarrow> nat list \<Rightarrow> py_error + nat list list" where
  "confusion_matrix y_true y_pred labels =
     (if length y_true \<noteq> length y_pred then Inl ValueError
      else if labels = [] then Inl ValueError
      else if y_true = [] then Inr (map (\<lambda>i. map (\<lambda>j. 0) labels) labels)
      else if filter (\<lambda>l. l \<in> set y_true) labels = [] then Inl ValueError
      else Inr (map (\<lambda>i. map (\<lambda>j. count_list (zip y_true y_pred) (i, j)) labels) labels))"

text \<open>The division of two count arrays, entry by entry: where the denominator is zero
  the entry is \<open>zero_division\<close> (silently, when that is a number), elsewhere the double
  nearest to the quotient.\<close>

definition prf_divide :: "rat \<Rightarrow> nat \<Rightarrow> nat \<Rightarrow> rat" where
  "prf_divide zero_division numerator denominator =
     (if denominator = 0 then zero_division
      else to_double (of_nat numerator / of_nat denominator))"

text \<open>The row of one label: precision is the share of the samples predicted as the label
  that have it, recall the share of the samples having the label that are predicted as
  it, the F1 score is \<open>2 tp / (true + predicted)\<close>, the support the number of samples
  having the label.\<close>

definition class_row :: "rat \<Rightarrow> nat list \<Rightarrow> nat list \<Rightarrow> string \<Rightarrow> nat \<Rightarrow> report_row" where
  "class_row zero_division y_true y_pred target_name l =
     (let tp_sum = count_list (zip y_true y_pred) (l, l);
          pred_sum = count_list y_pred l;
          true_sum = count_list y_true l
      in \<lparr> row_name = target_name,
           row_precision = prf_divide zero_division tp_sum pred_sum,
           row_recall = prf_divide zero_division tp_sum true_sum,
           row_f1 = prf_divide zero_division (2 * tp_sum) (true_sum + pred_sum),
           row_support = true_sum \<rparr>)"

text \<open>The rows of the classes, in the order of \<open>labels\<close>, each under its target name. The
  report ends with three summary rows (accuracy and two averages of the rows above); they
  are not modelled.\<close>

definition classification_report ::
  "nat list \<Rightarrow> nat list \<Rightarrow> nat list \<Rightarrow> string list \<Rightarrow> rat \<Rightarrow> py_error + report_row list" where
  "classification_report y_true y_pred labels target_names zero_division =
     (if length y_true \<noteq> length y_pred then Inl ValueError
      else Inr (map (\<lambda>(target_name, l). class_row zero_division y_true y_pred target_name l)
                  (zip target_names labels)))"

subsection \<open>AI Insights (lines 147-179)\<close>

text \<open>A row of the uploaded table, with the three columns the page reads; \<open>None\<close> is a
  missing cell.\<close>

record upload_row =
  c_description :: "string option"
  c_priority :: "string option"
  c_assigned_to :: "string option"

record data_row =
  d_description :: string
  d_priority :: string
  d_assigned_to :: string

text \<open>Line 152: the rows with a missing cell in one of the three columns are dropped.\<close>

fun dropna :: "upload_row list \<Rightarrow> data_row list" where
  "dropna [] = []"
| "dropna (r # rs) =
     (case (c_description r, c_priority r, c_assigned_to r) of
        (Some d, Some p, Some a) \<Rightarrow>
          \<lparr> d_description = d, d_priority = p, d_assigned_to = a \<rparr> # dropna rs
      | _ \<Rightarrow> dropna rs)"

text \<open>\<open>LabelEncoder.fit_transform\<close>: the classes are the distinct values in ascending
  order, the code of a value is its position among them.\<close>

fun index_of :: "'a list \<Rightarrow> 'a \<Rightarrow> nat" where
  "index_of [] y = 0"
| "index_of (x # xs) y = (if x = y then 0 else Suc (index_of xs y))"

definition fit_transform :: "'a::linorder list \<Rightarrow> 'a list \<times> nat list" where
  "fit_transform ys =
     (let classes = sort (remdups ys) in (classes, map (index_of classes) ys))"

text \<open>\<open>inverse_transform\<close> applied to one code; a code that names no class raises
  ValueError.\<close>

definition inverse_transform :: "'a list \<Rightarrow> nat \<Rightarrow> py_error + 'a" where
  "inverse_transform classes code =
     (if code < length classes then Inr (classes ! code) else Inl ValueError)"

text \<open>
  What the page takes from libraries: the stemmer and the stop words, the sentence
  encoder, the stratified split (which may raise ValueError), the random forest, the
  sampler of the search, the gradient-boosted classifier with its score and its
  prediction. \<open>'v\<close> is the type of an embedding vector, \<open>'c\<close> and \<open>'m\<close> the types of the two
  fitted models.
\<close>

record ('v, 'c, 'm) libs =
  l_stem :: "string \<Rightarrow> string"
  l_stopwords :: "string list"
  l_encode :: "string list \<Rightarrow> 'v list"
  l_train_test_split ::
    "'v list \<Rightarrow> nat list \<Rightarrow> py_error + ('v list \<times> 'v list \<times> nat list \<times> nat list)"
  l_forest_fit :: "'v list \<Rightarrow> nat list \<Rightarrow> 'c"
  l_trial :: sampler
  l_xgb_fit :: "xgb_params \<Rightarrow> 'v list \<Rightarrow> nat list \<Rightarrow> 'm"
  l_xgb_score :: "'m \<Rightarrow> 'v list \<Rightarrow> nat list \<Rightarrow> rat"
  l_predict :: "'m \<Rightarrow> 'v list \<Rightarrow> nat list"

text \<open>Lines 28-31 and 33-36.\<close>

definition get_sentence_embeddings :: "('v, 'c, 'm) libs \<Rightarrow> string list \<Rightarrow> 'v list" where
  "get_sentence_embeddings L sentences = l_encode L sentences"

definition train_classifier :: "('v, 'c, 'm) libs \<Rightarrow> 'v list \<Rightarrow> nat list \<Rightarrow> 'c" where
  "train_classifier L X y = l_forest_fit L X y"

text \<open>Lines 151-157: the table after the columns \<open>processed\<close>, \<open>priority_encoded\<close> and
  \<open>user_encoded\<close> were added, the classes of the priority encoder, and the features \<open>X\<close>.\<close>

record 'v prepared =
  p_df :: "data_row list"
  p_processed :: "string list"
  p_classes :: "string list"
  p_priority_encoded :: "nat list"
  p_user_encoded :: "nat list"
  p_X :: "'v list"

definition prepare :: "('v, 'c, 'm) libs \<Rightarrow> upload_row list \<Rightarrow> 'v prepared" where
  "prepare L uploaded =
     (let df = dropna uploaded;
          processed = map (\<lambda>r. preprocess_text (l_stem L) (l_stopwords L) (d_description r)) df;
          (classes, priority_encoded) = fit_transform (map d_priority df);
          user_encoded = snd (fit_transform (map d_assigned_to df));
          X = get_sentence_embeddings L (map d_description df)
      in \<lparr> p_df = df, p_processed = processed, p_classes = classes,
           p_priority_encoded = priority_encoded, p_user_encoded = user_encoded,
           p_X = X \<rparr>)"

text \<open>Lines 163-168: the report and the confusion matrix, both over the labels
  \<open>0, ..., len(classes_) - 1\<close> and with \<open>zero_division=0\<close>.\<close>

definition insights_report ::
  "string list \<Rightarrow> nat list \<Rightarrow> nat list \<Rightarrow> py_error + (report_row list \<times> nat list list)" where
  "insights_report classes y_test y_pred =
     (let labels = [0 ..< length classes]
      in case classification_report y_test y_pred labels classes 0 of
           Inl err \<Rightarrow> Inl err
         | Inr report \<Rightarrow>
             (case confusion_matrix y_test y_pred labels of
                Inl err \<Rightarrow> Inl err
              | Inr cm \<Rightarrow> Inr (report, cm)))"

text \<open>Lines 172-179: the prediction for a description typed into the page.\<close>

definition predict_section ::
  "('v, 'c, 'm) libs \<Rightarrow> 'v prepared \<Rightarrow> 'm \<Rightarrow> string \<Rightarrow> bool \<Rightarrow> py_error + ui list" where
  "predict_section L P priority_model desc button =
     (if button \<and> desc \<noteq> []
      then let vec = get_sentence_embeddings L [desc]
           in case l_predict L priority_model vec of
                [] \<Rightarrow> Inl IndexError
              | pred_priority # _ \<Rightarrow>
                  (case inverse_transform (p_classes P) pred_priority of
                     Inl err \<Rightarrow> Inl err
                   | Inr name \<Rightarrow>
                       (case recommend_user (map d_assigned_to (p_df P)) of
                          Inl err \<Rightarrow> Inl err
                        | Inr user \<Rightarrow>
                            Inr [Success (''Predicted Priority: '' @ name),
                                 Info (''Recommended User: '' @ user)]))
      else Inr [])"

text \<open>The page: nothing but the upload widget until a file is uploaded.\<close>

definition ai_insights_page ::
  "('v, 'c, 'm) libs \<Rightarrow> upload_row list option \<Rightarrow> string \<Rightarrow> bool \<Rightarrow> py_error + ui list" where
  "ai_insights_page L uploaded desc button =
     (case uploaded of
        None \<Rightarrow> Inr []
      | Some csv \<Rightarrow>
          (let P = prepare L csv
           in case l_train_test_split L (p_X P) (p_priority_encoded P) of
                Inl err \<Rightarrow> Inl err
              | Inr (X_train, X_test, y_train, y_test) \<Rightarrow>
                  (let classifier = train_classifier L X_train y_train
                   in case optimize_xgb (l_trial L) (l_xgb_fit L) (l_xgb_score L)
                             X_train y_train of
                        Inl err \<Rightarrow> Inl err
                      | Inr priority_model \<Rightarrow>
                          (let y_pred = l_predict L priority_model X_test
                           in case insights_report (p_classes P) y_test y_pred of
                                Inl err \<Rightarrow> Inl err
                              | Inr (report, cm) \<Rightarrow>
                                  (case predict_section L P priority_model desc button of
                                     Inl err \<Rightarrow> Inl err
                                   | Inr out \<Rightarrow>
                                       Inr ([ReportTable report,
                                             ConfusionMatrixPlot cm (p_classes P)]
                                            @ out))))))"

subsection \<open>One run of the script (lines 69-179)\<close>

datatype page = Dashboard | AddTask | Tasks | AIInsights

text \<open>The widget values of one run: the page chosen in the sidebar and the widgets of
  each page.\<close>

record inputs =
  i_page :: page
  i_form :: add_task_form
  i_status_filter :: string
  i_priority_filter :: string
  i_uploaded :: "upload_row list option"
  i_desc :: string
  i_button :: bool

text \<open>The session state is \<open>None\<close> before the first run, when the key \<open>tasks\<close> is not yet
  in it (lines 69-70). A run returns the task list it leaves in the session state and
  what it renders, or the error that ended it.\<close>

definition script ::
  "('v, 'c, 'm) libs \<Rightarrow> inputs \<Rightarrow> task list option \<Rightarrow> task list \<times> (py_error + ui list)" where
  "script L inp session =
     (let tasks = (case session of None \<Rightarrow> [] | Some ts \<Rightarrow> ts)
      in case i_page inp of
           Dashboard \<Rightarrow> (tasks, dashboard_page tasks)
         | AddTask \<Rightarrow>
             (let (tasks', out) = add_task_page (i_form inp) tasks in (tasks', Inr out))
         | Tasks \<Rightarrow>
             (tasks, Inr (tasks_page (i_status_filter inp) (i_priority_filter inp) tasks))
         | AIInsights \<Rightarrow>
             (tasks, ai_insights_page L (i_uploaded inp) (i_desc inp) (i_button inp)))"

text \<open>A session: the runs one after the other, each on the state the one before left.\<close>

fun run_session :: "('v, 'c, 'm) libs \<Rightarrow> inputs list \<Rightarrow> task list option \<Rightarrow> task list option" where
  "run_session L [] session = session"
| "run_session L (inp # inps) session = run_session L inps (Some (fst (script L inp session)))"

subsection \<open>Sample data\<close>

definition pending_task :: task where
  "pending_task = \<lparr> description = ''Fix login bug'', estimated_hours = 2,
                      due_date = ''2024-03-09'', category = ''Web'',
                      priority = ''High'', status = ''Pending'' \<rparr>"

definition completed_task :: task where
  "completed_task = \<lparr> description = ''Write report'', estimated_hours = 1,
                        due_date = ''2024-03-10'', category = ''Docs'',
                        priority = ''Low'', status = ''Completed'' \<rparr>"

definition blank_form :: add_task_form where
  "blank_form = \<lparr> f_description = [], f_estimated_hours = 0,
                    f_due_date = \<lparr> year = 2024, month = 3, day = 9 \<rparr>,
                    f_category = ''Web'', f_priority = ''Low'', f_status = ''Pending'',
                    submitted = True \<rparr>"

definition filled_form :: add_task_form where
  "filled_form = blank_form \<lparr> f_description := ''Fix login bug'' \<rparr>"

text \<open>An upload of ten rows, five of each of two priorities.\<close>

definition sample_upload :: "upload_row list" where
  "sample_upload =
     replicate 5 \<lparr> c_description = Some ''Fix the Login bug!'', c_priority = Some ''High'',
                   c_assigned_to = Some ''alice'' \<rparr>
     @ replicate 5 \<lparr> c_description = Some ''Write the reports'', c_priority = Some ''Low'',
                     c_assigned_to = Some ''bob'' \<rparr>"

text \<open>Sample libraries: the plural stemmer and the sample stop words, an encoder that
  returns each sentence as its own vector, a split that puts the first and the last row
  into the test fold, and a classifier that predicts class 0 for every sample.\<close>

definition sample_libs :: "(string, unit, unit) libs" where
  "sample_libs =
     \<lparr> l_stem = plural_stem,
       l_stopwords = sample_stopwords,
       l_encode = (\<lambda>sentences. sentences),
       l_train_test_split = (\<lambda>X y. if length X < 3 then Inl ValueError
                                    else Inr (butlast (tl X), [hd X, last X],
                                              butlast (tl y), [hd y, last y])),
       l_forest_fit = (\<lambda>X y. ()),
       l_trial = stepping_sampler,
       l_xgb_fit = (\<lambda>params X y. ()),
       l_xgb_score = (\<lambda>model X y. 0),
       l_predict = (\<lambda>model X. map (\<lambda>x. 0) X) \<rparr>"

text \<open>Five runs: two submissions of the form, the second with an empty description, then
  the task list, the dashboard and the AI Insights page.\<close>

definition sample_inputs :: "inputs list" where
  "sample_inputs =
     (let inp = \<lparr> i_page = AddTask, i_form = filled_form, i_status_filter = ''All'',
                   i_priority_filter = ''All'', i_uploaded = None, i_desc = [],
                   i_button = False \<rparr>
      in [inp, inp \<lparr> i_form := blank_form \<rparr>, inp \<lparr> i_page := Tasks \<rparr>,
          inp \<lparr> i_page := Dashboard \<rparr>,
          inp \<lparr> i_page := AIInsights, i_uploaded := Some sample_upload \<rparr>])"

section \<open>Properties\<close>

subsection \<open>Rounding to the nearest double\<close>

lemma pow2_powi: "pow2 e = 2 powi e"
  unfolding pow2_def power_int_def by (simp add: power_one_over[symmetric] inverse_eq_divide)

lemma pow2_pos: "0 < pow2 e"
  by (simp add: pow2_powi)

lemma pow2_add: "pow2 (a + b) = pow2 a * pow2 b"
  by (simp add: pow2_powi power_int_add)

lemma pow2_mono: "a \<le> b \<Longrightarrow> pow2 a \<le> pow2 b"
  by (simp add: pow2_powi power_int_increasing)

lemma pow2_Suc: "pow2 (e + 1) = 2 * pow2 e"
  by (simp add: pow2_powi power_int_add)

lemma pow2_nat: "0 \<le> e \<Longrightarrow> pow2 e = 2 ^ nat e"
  by (simp add: pow2_def)

lemma pow2_split: "pow2 e = pow2 (e - k) * pow2 k"
  by (simp add: pow2_add[symmetric])

lemma pow2_52: "pow2 52 = 2 ^ 52" by (simp add: pow2_def)
lemma pow2_53: "pow2 53 = 2 ^ 53" by (simp add: pow2_def)

lemma pow2_exp_52: "pow2 e = pow2 (e - 52) * 2 ^ 52"
  using pow2_split[of e 52] by (simp only: pow2_52)

lemma pow2_exp_53: "pow2 (e + 1) = pow2 (e - 52) * 2 ^ 53"
proof -
  have "pow2 (e + 1) = pow2 (e + 1 - 53) * pow2 53" by (rule pow2_split)
  also have "e + 1 - 53 = e - 52" by simp
  finally show ?thesis by (simp only: pow2_53)
qed

lemma bitlen_rat_bounds:
  fixes a :: int
  assumes "0 < a"
  shows "pow2 (bitlen a - 1) \<le> of_int a" and "of_int a < pow2 (bitlen a)"
proof -
  have ge1: "1 \<le> bitlen a" using assms bitlen_eq_zero_iff[of a] bitlen_nonneg[of a] by linarith
  from bitlen_bounds[OF assms] have lo: "2 ^ nat (bitlen a - 1) \<le> a" and hi: "a < 2 ^ nat (bitlen a)"
    by auto
  have "(of_int (2 ^ nat (bitlen a - 1)) :: rat) \<le> of_int a" using lo by (simp only: of_int_le_iff)
  then show "pow2 (bitlen a - 1) \<le> of_int a" using ge1 by (simp add: pow2_def)
  have "(of_int a :: rat) < of_int (2 ^ nat (bitlen a))" using hi by (simp only: of_int_less_iff)
  then show "of_int a < pow2 (bitlen a)" using ge1 by (simp add: pow2_def)
qed

lemma ilog2_bounds:
  assumes "0 < x"
  shows "pow2 (ilog2 x) \<le> x" and "x < pow2 (ilog2 x + 1)"
proof -
  obtain a b where q: "quotient_of x = (a, b)" by (cases "quotient_of x")
  then have b: "0 < b" by (rule quotient_of_denom_pos)
  have x: "x = of_int a / of_int b" using q by (rule quotient_of_div)
  have a: "0 < a" using assms b x by (simp add: zero_less_divide_iff)
  let ?e = "bitlen a - bitlen b"
  note A = bitlen_rat_bounds[OF a] and B = bitlen_rat_bounds[OF b]
  have bq: "(0::rat) < of_int b" using b by simp
  have lo: "pow2 (?e - 1) \<le> x"
  proof -
    have "pow2 (?e - 1) * of_int b \<le> pow2 (?e - 1) * pow2 (bitlen b)"
      using B(2) pow2_pos[of "?e - 1"] by (simp add: less_imp_le)
    also have "\<dots> = pow2 (bitlen a - 1)" by (simp add: pow2_add[symmetric])
    also have "\<dots> \<le> of_int a" by (rule A(1))
    finally show ?thesis using bq by (simp add: x pos_le_divide_eq)
  qed
  have hi: "x < pow2 (?e + 1)"
  proof -
    have "of_int a < pow2 (bitlen a)" by (rule A(2))
    also have "\<dots> = pow2 (?e + 1) * pow2 (bitlen b - 1)" by (simp add: pow2_add[symmetric])
    also have "\<dots> \<le> pow2 (?e + 1) * of_int b"
      using B(1) pow2_pos[of "?e + 1"] by simp
    finally show ?thesis using bq by (simp add: x pos_divide_less_eq)
  qed
  have il: "ilog2 x = (if pow2 ?e \<le> x then ?e else ?e - 1)"
    by (simp add: ilog2_def q Let_def)
  show "pow2 (ilog2 x) \<le> x" using lo by (simp add: il)
  show "x < pow2 (ilog2 x + 1)" using hi by (auto simp add: il not_le)
qed



lemma rhe_cases:
  "round_half_even x = \<lfloor>x\<rfloor> \<and> x - of_int \<lfloor>x\<rfloor> \<le> 1 / 2
   \<or> round_half_even x = \<lfloor>x\<rfloor> + 1 \<and> 1 / 2 \<le> x - of_int \<lfloor>x\<rfloor>"
  by (auto simp add: round_half_even_def Let_def)

lemma rhe_lower: "x - 1 / 2 \<le> of_int (round_half_even x)"
proof -
  have a: "x < of_int \<lfloor>x\<rfloor> + 1" by linarith
  from rhe_cases[of x] show ?thesis
  proof
    assume h: "round_half_even x = \<lfloor>x\<rfloor> \<and> x - of_int \<lfloor>x\<rfloor> \<le> 1 / 2"
    then have "(of_int (round_half_even x) :: rat) = of_int \<lfloor>x\<rfloor>" by simp
    then show ?thesis using h by linarith
  next
    assume h: "round_half_even x = \<lfloor>x\<rfloor> + 1 \<and> 1 / 2 \<le> x - of_int \<lfloor>x\<rfloor>"
    then have "(of_int (round_half_even x) :: rat) = of_int \<lfloor>x\<rfloor> + 1" by simp
    then show ?thesis using a by linarith
  qed
qed

lemma rhe_upper: "of_int (round_half_even x) \<le> x + 1 / 2"
proof -
  have a: "of_int \<lfloor>x\<rfloor> \<le> x" by simp
  from rhe_cases[of x] show ?thesis
  proof
    assume h: "round_half_even x = \<lfloor>x\<rfloor> \<and> x - of_int \<lfloor>x\<rfloor> \<le> 1 / 2"
    then have "(of_int (round_half_even x) :: rat) = of_int \<lfloor>x\<rfloor>" by simp
    then show ?thesis using a by linarith
  next
    assume h: "round_half_even x = \<lfloor>x\<rfloor> + 1 \<and> 1 / 2 \<le> x - of_int \<lfloor>x\<rfloor>"
    then have "(of_int (round_half_even x) :: rat) = of_int \<lfloor>x\<rfloor> + 1" by simp
    then show ?thesis using h by linarith
  qed
qed

lemma rhe_of_int: "round_half_even (of_int n) = n"
  by (simp add: round_half_even_def)

lemma rhe_mono:
  assumes "x \<le> y"
  shows "round_half_even x \<le> round_half_even y"
proof -
  have fl: "\<lfloor>x\<rfloor> \<le> \<lfloor>y\<rfloor>" using assms by (rule floor_mono)
  show ?thesis
  proof (cases "\<lfloor>x\<rfloor> = \<lfloor>y\<rfloor>")
    case True
    then have "x - of_int \<lfloor>x\<rfloor> \<le> y - of_int \<lfloor>y\<rfloor>" using assms by simp
    then show ?thesis using True
      by (simp add: round_half_even_def Let_def)
  next
    case False
    then have "\<lfloor>x\<rfloor> + 1 \<le> \<lfloor>y\<rfloor>" using fl by simp
    moreover have "round_half_even x \<le> \<lfloor>x\<rfloor> + 1" using rhe_cases[of x] by auto
    moreover have "\<lfloor>y\<rfloor> \<le> round_half_even y" using rhe_cases[of y] by auto
    ultimately show ?thesis by linarith
  qed
qed

lemma rhe_le_int: "x \<le> of_int n \<Longrightarrow> round_half_even x \<le> n"
  using rhe_mono[of x "of_int n"] by (simp add: rhe_of_int)

lemma rhe_ge_int: "of_int n \<le> x \<Longrightarrow> n \<le> round_half_even x"
  using rhe_mono[of "of_int n" x] by (simp add: rhe_of_int)

lemma to_double_pos_eq:
  "0 < x \<Longrightarrow> to_double x = of_int (round_half_even (x / pow2 (ilog2 x - 52))) * pow2 (ilog2 x - 52)"
  by (simp add: to_double_def Let_def)

lemma scaled_bounds:
  assumes "0 < x"
  shows "2 ^ 52 \<le> x / pow2 (ilog2 x - 52)" and "x / pow2 (ilog2 x - 52) \<le> 2 ^ 53"
proof -
  note p = pow2_exp_52[of "ilog2 x"] and p1 = pow2_exp_53[of "ilog2 x"]
  show "2 ^ 52 \<le> x / pow2 (ilog2 x - 52)"
    using ilog2_bounds(1)[OF assms] pow2_pos[of "ilog2 x - 52"]
    by (simp add: p pos_le_divide_eq mult.commute)
  show "x / pow2 (ilog2 x - 52) \<le> 2 ^ 53"
    using ilog2_bounds(2)[OF assms] pow2_pos[of "ilog2 x - 52"]
    by (simp add: p1 pos_divide_le_eq mult.commute less_imp_le)
qed

lemma to_double_bounds:
  assumes "0 < x"
  shows "pow2 (ilog2 x) \<le> to_double x" and "to_double x \<le> pow2 (ilog2 x + 1)"
proof -
  let ?d = "pow2 (ilog2 x - 52)"
  let ?m = "round_half_even (x / ?d)"
  have p: "pow2 (ilog2 x) = 2 ^ 52 * ?d"
    using pow2_exp_52[of "ilog2 x"] by (simp only: mult.commute)
  have p1: "pow2 (ilog2 x + 1) = 2 ^ 53 * ?d"
    using pow2_exp_53[of "ilog2 x"] by (simp only: mult.commute)
  have "(2::int) ^ 52 \<le> ?m"
    by (rule rhe_ge_int) (use scaled_bounds(1)[OF assms] in simp)
  then have "(of_int ((2::int) ^ 52) :: rat) \<le> of_int ?m" by (simp only: of_int_le_iff)
  then have lo: "(2::rat) ^ 52 \<le> of_int ?m" by simp
  have "?m \<le> (2::int) ^ 53"
    by (rule rhe_le_int) (use scaled_bounds(2)[OF assms] in simp)
  then have "(of_int ?m :: rat) \<le> of_int ((2::int) ^ 53)" by (simp only: of_int_le_iff)
  then have hi: "of_int ?m \<le> (2::rat) ^ 53" by simp
  show "pow2 (ilog2 x) \<le> to_double x"
    unfolding to_double_pos_eq[OF assms] p
    by (rule mult_right_mono[OF lo]) (simp add: pow2_pos less_imp_le)
  show "to_double x \<le> pow2 (ilog2 x + 1)"
    unfolding to_double_pos_eq[OF assms] p1
    by (rule mult_right_mono[OF hi]) (simp add: pow2_pos less_imp_le)
qed

lemma ilog2_mono:
  assumes "0 < x" "x \<le> y"
  shows "ilog2 x \<le> ilog2 y"
proof (rule ccontr)
  assume "\<not> ilog2 x \<le> ilog2 y"
  then have "ilog2 y + 1 \<le> ilog2 x" by simp
  then have "pow2 (ilog2 y + 1) \<le> pow2 (ilog2 x)" by (rule pow2_mono)
  moreover have "y < pow2 (ilog2 y + 1)" using assms by (intro ilog2_bounds(2)) simp
  moreover have "pow2 (ilog2 x) \<le> x" using assms by (intro ilog2_bounds(1))
  ultimately show False using assms by linarith
qed

lemma to_double_zero: "to_double 0 = 0"
  by (simp add: to_double_def)

lemma to_double_pos: "0 < x \<Longrightarrow> 0 < to_double x"
  using to_double_bounds(1)[of x] pow2_pos[of "ilog2 x"] by linarith

lemma to_double_mono_pos:
  assumes "0 < x" "x \<le> y"
  shows "to_double x \<le> to_double y"
proof -
  have y: "0 < y" using assms by simp
  show ?thesis
  proof (cases "ilog2 x = ilog2 y")
    case True
    let ?d = "pow2 (ilog2 y - 52)"
    have "x / ?d \<le> y / ?d" using assms pow2_pos[of "ilog2 y - 52"]
      by (simp add: divide_right_mono less_imp_le)
    then have "round_half_even (x / ?d) \<le> round_half_even (y / ?d)" by (rule rhe_mono)
    then have "(of_int (round_half_even (x / ?d)) :: rat) \<le> of_int (round_half_even (y / ?d))"
      by (simp only: of_int_le_iff)
    then show ?thesis
      unfolding to_double_pos_eq[OF assms(1)] to_double_pos_eq[OF y] True
      by (rule mult_right_mono) (simp add: pow2_pos less_imp_le)
  next
    case False
    then have "ilog2 x + 1 \<le> ilog2 y" using ilog2_mono[OF assms] by simp
    then have "pow2 (ilog2 x + 1) \<le> pow2 (ilog2 y)" by (rule pow2_mono)
    then show ?thesis
      using to_double_bounds(2)[OF assms(1)] to_double_bounds(1)[OF y] by linarith
  qed
qed

lemma to_double_mono:
  assumes "0 \<le> x" "x \<le> y"
  shows "to_double x \<le> to_double y"
proof (cases "x = 0")
  case True
  show ?thesis
  proof (cases "y = 0")
    case True
    then show ?thesis using \<open>x = 0\<close> by simp
  next
    case False
    then have "0 < y" using assms by simp
    then show ?thesis using to_double_pos[of y] \<open>x = 0\<close> by (simp add: to_double_zero)
  qed
next
  case False
  then have "0 < x" using assms by simp
  then show ?thesis using assms(2) by (rule to_double_mono_pos)
qed

lemma to_double_nonneg: "0 \<le> x \<Longrightarrow> 0 \<le> to_double x"
  using to_double_mono[of 0 x] by (simp add: to_double_zero)

lemma to_double_1: "to_double 1 = 1" by code_simp
lemma to_double_100: "to_double 100 = 100" by code_simp



lemma to_double_error_pos:
  assumes "0 < x"
  shows "\<bar>to_double x - x\<bar> \<le> x / 2 ^ 53"
proof -
  let ?d = "pow2 (ilog2 x - 52)"
  let ?s = "x / ?d"
  let ?m = "of_int (round_half_even ?s) :: rat"
  have d: "0 < ?d" by (rule pow2_pos)
  have x: "x = ?s * ?d" using d by simp
  have "to_double x - x = ?m * ?d - ?s * ?d"
    using to_double_pos_eq[OF assms] x by simp
  also have "\<dots> = (?m - ?s) * ?d" by (simp add: algebra_simps)
  finally have "\<bar>to_double x - x\<bar> = \<bar>?m - ?s\<bar> * ?d"
    using d by (simp add: abs_mult)
  moreover have "\<bar>?m - ?s\<bar> \<le> 1 / 2"
    using rhe_lower[of ?s] rhe_upper[of ?s] by linarith
  ultimately have e1: "\<bar>to_double x - x\<bar> \<le> 1 / 2 * ?d"
    using d by (simp add: mult_right_mono)
  have "?d * 2 ^ 52 \<le> x"
    using ilog2_bounds(1)[OF assms] pow2_exp_52[of "ilog2 x"] by simp
  then have "1 / 2 * ?d \<le> x / 2 ^ 53" by simp
  then show ?thesis using e1 by linarith
qed

lemma to_double_error:
  assumes "0 \<le> x" "x \<le> b"
  shows "\<bar>to_double x - x\<bar> \<le> b / 2 ^ 53"
proof (cases "x = 0")
  case True
  then show ?thesis using assms by (simp add: to_double_zero)
next
  case False
  then have "0 < x" using assms by simp
  then have "\<bar>to_double x - x\<bar> \<le> x / 2 ^ 53" by (rule to_double_error_pos)
  also have "\<dots> \<le> b / 2 ^ 53" using assms by (simp add: divide_right_mono)
  finally show ?thesis .
qed

lemma to_double_le_1: "0 \<le> x \<Longrightarrow> x \<le> 1 \<Longrightarrow> to_double x \<le> 1"
  using to_double_mono[of x 1] by (simp add: to_double_1)

lemma to_double_le_100: "0 \<le> x \<Longrightarrow> x \<le> 100 \<Longrightarrow> to_double x \<le> 100"
  using to_double_mono[of x 100] by (simp add: to_double_100)

lemma completed_count_le: "completed_count tasks \<le> length tasks"
  by (simp add: completed_count_def)

lemma share_bounds:
  assumes "tasks \<noteq> []"
  shows "(0::rat) \<le> of_nat (completed_count tasks) / of_nat (length tasks)"
    and "(of_nat (completed_count tasks) / of_nat (length tasks) :: rat) \<le> 1"
proof -
  show "(0::rat) \<le> of_nat (completed_count tasks) / of_nat (length tasks)" by simp
  have "(of_nat (completed_count tasks) :: rat) \<le> of_nat (length tasks)"
    using completed_count_le[of tasks] by (simp only: of_nat_le_iff)
  then show "(of_nat (completed_count tasks) / of_nat (length tasks) :: rat) \<le> 1"
    using assms by (simp add: divide_le_eq_1)
qed

lemma rate_unfold:
  assumes "tasks \<noteq> []"
  shows "calculate_completion_rate tasks =
         Inr (py_round (float_mul (to_double (of_nat (completed_count tasks) / of_nat (length tasks))) 100) 2)"
  using assms by (simp add: calculate_completion_rate_def true_div_def)

text \<open>The intermediate values of the completion rate stay in range.\<close>

lemma rate_chain:
  fixes x :: rat
  assumes x: "0 \<le> x" "x \<le> 1"
  defines "q \<equiv> to_double x"
  defines "p \<equiv> float_mul q 100"
  defines "k \<equiv> round_half_even (p * 10 ^ 2)"
  defines "r \<equiv> py_round p 2"
  shows "0 \<le> q" "q \<le> 1" "0 \<le> p" "p \<le> 100" "0 \<le> k" "k \<le> 10000" "0 \<le> r" "r \<le> 100"
    "r = to_double (of_int k / 100)"
proof -
  show q0: "0 \<le> q" unfolding q_def using x by (simp add: to_double_nonneg)
  show q1: "q \<le> 1" unfolding q_def using x by (rule to_double_le_1)
  have y: "0 \<le> q * 100" "q * 100 \<le> 100" using q0 q1 by simp_all
  show p0: "0 \<le> p" unfolding p_def float_mul_def using y by (simp add: to_double_nonneg)
  show p1: "p \<le> 100" unfolding p_def float_mul_def using y by (rule to_double_le_100)
  have "of_int 0 \<le> p * 10 ^ 2" using p0 by simp
  then show k0: "0 \<le> k" unfolding k_def by (rule rhe_ge_int)
  have "p * 10 ^ 2 \<le> of_int 10000" using p1 by simp
  then show k1: "k \<le> 10000" unfolding k_def by (rule rhe_le_int)
  show r: "r = to_double (of_int k / 100)" by (simp add: r_def py_round_def k_def)
  have z: "(0::rat) \<le> of_int k / 100" "(of_int k / 100 :: rat) \<le> 100" using k0 k1 by simp_all
  show "0 \<le> r" unfolding r using z by (simp add: to_double_nonneg)
  show "r \<le> 100" unfolding r using z by (rule to_double_le_100)
qed

lemma rate_error:
  fixes x :: rat
  assumes x: "0 \<le> x" "x \<le> 1"
  shows "\<bar>py_round (float_mul (to_double x) 100) 2 - 100 * x\<bar> \<le> 1 / 200 + 300 / 2 ^ 53"
proof -
  let ?q = "to_double x"
  let ?p = "float_mul ?q 100"
  let ?k = "round_half_even (?p * 10 ^ 2)"
  let ?z = "of_int ?k / 100 :: rat"
  let ?r = "py_round ?p 2"
  note c = rate_chain[OF x]
  have e1: "\<bar>?q - x\<bar> \<le> 1 / 2 ^ 53" by (rule to_double_error[OF x])
  have "0 \<le> ?q * 100" "?q * 100 \<le> 100" using c(1,2) by simp_all
  then have e2: "\<bar>?p - ?q * 100\<bar> \<le> 100 / 2 ^ 53"
    unfolding float_mul_def by (rule to_double_error)
  have "\<bar>of_int ?k - ?p * 10 ^ 2\<bar> \<le> 1 / 2"
    using rhe_lower[of "?p * 10 ^ 2"] rhe_upper[of "?p * 10 ^ 2"] by linarith
  then have e3: "\<bar>?z - ?p\<bar> \<le> 1 / 200" by (simp add: abs_le_iff field_simps)
  have "(0::rat) \<le> ?z" "?z \<le> 100" using c(5,6) by simp_all
  then have "\<bar>to_double ?z - ?z\<bar> \<le> 100 / 2 ^ 53" by (rule to_double_error)
  then have e4: "\<bar>?r - ?z\<bar> \<le> 100 / 2 ^ 53" using c(9) by simp
  have e1': "\<bar>?q * 100 - 100 * x\<bar> \<le> 100 / 2 ^ 53"
  proof -
    have "?q * 100 - 100 * x = 100 * (?q - x)" by (simp add: algebra_simps)
    then have "\<bar>?q * 100 - 100 * x\<bar> = \<bar>100 * (?q - x)\<bar>" by (simp only:)
    also have "\<dots> = 100 * \<bar>?q - x\<bar>" by (simp only: abs_mult abs_numeral)
    finally show ?thesis using e1 by simp
  qed
  have "\<bar>?r - 100 * x\<bar> \<le> \<bar>?r - ?z\<bar> + \<bar>?z - ?p\<bar> + \<bar>?p - ?q * 100\<bar> + \<bar>?q * 100 - 100 * x\<bar>"
    by linarith
  also have "\<dots> \<le> 100 / 2 ^ 53 + 1 / 200 + 100 / 2 ^ 53 + 100 / 2 ^ 53"
    using e1' e2 e3 e4 by (intro add_mono)
  also have "\<dots> = 1 / 200 + 300 / 2 ^ 53" by simp
  finally show ?thesis .
qed

subsection \<open>Completion rate\<close>

lemma tiny_bound: "(1::rat) / 200 + 300 / 2 ^ 53 \<le> 1 / 200 + 1 / 10 ^ 13"
  by simp

text \<open>
  C1 (amended). For the empty sequence the completion rate is \<open>0\<close> and nothing is
  divided. For a non-empty sequence it is \<open>round(p, 2)\<close>, where \<open>p\<close> is the double
  \<open>(completed_count / total_count) * 100\<close>: the quotient is rounded to a double first, its
  product with \<open>100\<close> is rounded again, and only then are two decimals taken. The result
  lies within \<open>0.005 + 1e-13\<close> of the exact percentage
  \<open>100 * completed_count / total_count\<close>.
\<close>

theorem completion_rate_value:
  "(tasks = [] \<longrightarrow> calculate_completion_rate tasks = Inr 0)
   \<and> (tasks \<noteq> [] \<longrightarrow>
        calculate_completion_rate tasks =
          Inr (py_round (float_mul (to_double (of_nat (completed_count tasks) / of_nat (length tasks))) 100) 2)
        \<and> \<bar>py_round (float_mul (to_double (of_nat (completed_count tasks) / of_nat (length tasks))) 100) 2
             - 100 * (of_nat (completed_count tasks) / of_nat (length tasks))\<bar>
            \<le> 1 / 200 + 1 / 10 ^ 13)"
proof (cases "tasks = []")
  case True
  then show ?thesis by (simp add: calculate_completion_rate_def)
next
  case False
  have "\<bar>py_round (float_mul (to_double (of_nat (completed_count tasks) / of_nat (length tasks))) 100) 2
             - 100 * (of_nat (completed_count tasks) / of_nat (length tasks))\<bar>
            \<le> 1 / 200 + 300 / 2 ^ 53"
    by (rule rate_error[OF share_bounds[OF False]])
  then have "\<bar>py_round (float_mul (to_double (of_nat (completed_count tasks) / of_nat (length tasks))) 100) 2
             - 100 * (of_nat (completed_count tasks) / of_nat (length tasks))\<bar>
            \<le> 1 / 200 + 1 / 10 ^ 13"
    using tiny_bound by (rule order_trans)
  then show ?thesis using rate_unfold[OF False] False by simp
qed

lemma sample_counts:
  "completed_count (replicate m completed_task @ replicate n pending_task) = m"
  "length (replicate m completed_task @ replicate n pending_task) = m + n"
  by (simp_all add: completed_count_def completed_task_def pending_task_def)

text \<open>
  The two branches at concrete inputs: no task, and one task of three completed.
\<close>

theorem completion_rate_value_witness:
  "calculate_completion_rate [] = Inr 0
   \<and> calculate_completion_rate [completed_task, pending_task, pending_task]
       = Inr (py_round (float_mul (to_double (1 / 3)) 100) 2)
   \<and> \<bar>py_round (float_mul (to_double (1 / 3)) 100) 2 - 100 * (1 / 3)\<bar> \<le> 1 / 200 + 1 / 10 ^ 13"
proof -
  let ?ts = "[completed_task, pending_task, pending_task]"
  have ne: "?ts \<noteq> []" by simp
  have c: "completed_count ?ts = 1"
    by (simp add: completed_count_def completed_task_def pending_task_def)
  have l: "length ?ts = 3" by simp
  have n: "(of_nat 1 / of_nat 3 :: rat) = 1 / 3" by simp
  show ?thesis
    using completion_rate_value[of "[]"] completion_rate_value[of ?ts] ne
    unfolding c l n by blast
qed

lemma double_rate_23_160:
  "py_round (float_mul (to_double (23 / 160)) 100) 2 = to_double (1437 / 100)"
  by code_simp

lemma double_spec_23_160:
  "py_round (to_double (2300 / 160)) 2 = to_double (1438 / 100)"
  by code_simp

lemma double_1437_1438: "to_double (1437 / 100) \<noteq> to_double (1438 / 100)"
  by code_simp

text \<open>
  C1 as stated fails with 23 of 160 tasks completed. The exact percentage is \<open>14.375\<close>,
  so \<open>round(100 * 23 / 160, 2)\<close> is \<open>14.38\<close>. The function computes
  \<open>(23 / 160) * 100\<close> in doubles, which is \<open>14.374999999999998\<close>, and returns
  \<open>14.37\<close>.
\<close>

theorem completion_rate_formula_counterexample:
  "calculate_completion_rate (replicate 23 completed_task @ replicate 137 pending_task)
     = Inr (to_double (1437 / 100))
   \<and> completion_rate_spec (replicate 23 completed_task @ replicate 137 pending_task)
     = to_double (1438 / 100)
   \<and> to_double (1437 / 100) \<noteq> to_double (1438 / 100)"
proof -
  let ?ts = "replicate 23 completed_task @ replicate 137 pending_task"
  have ne: "?ts \<noteq> []" by simp
  have c: "completed_count ?ts = 23" by (rule sample_counts(1))
  have l: "length ?ts = 160" by (simp add: sample_counts(2))
  have n1: "(of_nat 23 / of_nat 160 :: rat) = 23 / 160" by simp
  have n2: "(of_nat (100 * 23) / of_nat 160 :: rat) = 2300 / 160" by simp
  have "calculate_completion_rate ?ts = Inr (to_double (1437 / 100))"
    unfolding rate_unfold[OF ne] c l n1 by (simp only: double_rate_23_160)
  moreover have "completion_rate_spec ?ts = to_double (1438 / 100)"
    unfolding completion_rate_spec_def c l n2 using ne by (simp only: double_spec_23_160 if_False)
  ultimately show ?thesis using double_1437_1438 by blast
qed

lemma double_rate_threshold:
  "1 / 200 < float_mul (to_double (1 / 20000)) 100"
  by code_simp

lemma rate_zero_small:
  fixes x :: rat
  assumes x: "0 \<le> x" "x \<le> 1" and z: "py_round (float_mul (to_double x) 100) 2 = 0"
  shows "x < 1 / 20000"
proof (rule ccontr)
  assume "\<not> x < 1 / 20000"
  then have ge: "1 / 20000 \<le> x" by simp
  have "to_double (1 / 20000) \<le> to_double x" using ge by (intro to_double_mono) simp_all
  then have "to_double (1 / 20000) * 100 \<le> to_double x * 100" by simp
  moreover have "0 \<le> to_double (1 / 20000) * 100" by (simp add: to_double_nonneg)
  ultimately have "float_mul (to_double (1 / 20000)) 100 \<le> float_mul (to_double x) 100"
    unfolding float_mul_def by (intro to_double_mono)
  then have p: "1 / 200 < float_mul (to_double x) 100"
    using double_rate_threshold by linarith
  let ?p = "float_mul (to_double x) 100"
  have "of_int 1 \<le> ?p * 10 ^ 2 + 1 / 2" using p by simp
  have k: "1 \<le> round_half_even (?p * 10 ^ 2)"
  proof -
    have "0 < ?p * 10 ^ 2 - 1 / 2" using p by simp
    also have "\<dots> \<le> of_int (round_half_even (?p * 10 ^ 2))" by (rule rhe_lower)
    finally have "(of_int 0 :: rat) < of_int (round_half_even (?p * 10 ^ 2))" by simp
    then have "0 < round_half_even (?p * 10 ^ 2)" by (simp only: of_int_less_iff)
    then show ?thesis by simp
  qed
  have "(0::rat) < of_int (round_half_even (?p * 10 ^ 2)) / 10 ^ 2" using k by simp
  then have "0 < py_round ?p 2" unfolding py_round_def by (rule to_double_pos)
  then show False using z by simp
qed

lemma rate_zero_of_zero: "py_round (float_mul (to_double 0) 100) 2 = 0"
  by (simp add: py_round_def float_mul_def to_double_zero round_half_even_def)

text \<open>
  C2 (amended). For a non-empty sequence the completion rate lies in \<open>[0, 100]\<close>; it is
  \<open>0\<close> whenever no task is completed; and when it is \<open>0\<close>, fewer than one task in
  20000 is completed. The converse of the second part does not hold: the two-decimal
  rounding maps small positive shares to \<open>0\<close>.
\<close>

theorem completion_rate_range:
  assumes "tasks \<noteq> []"
  shows "\<exists>r. calculate_completion_rate tasks = Inr r \<and> 0 \<le> r \<and> r \<le> 100
           \<and> (completed_count tasks = 0 \<longrightarrow> r = 0)
           \<and> (r = 0 \<longrightarrow> 20000 * completed_count tasks < length tasks)"
proof -
  let ?x = "of_nat (completed_count tasks) / of_nat (length tasks) :: rat"
  let ?r = "py_round (float_mul (to_double ?x) 100) 2"
  note sb = share_bounds[OF assms]
  have r: "calculate_completion_rate tasks = Inr ?r" by (rule rate_unfold[OF assms])
  have b: "0 \<le> ?r" "?r \<le> 100" by (rule rate_chain(7)[OF sb], rule rate_chain(8)[OF sb])
  have z: "completed_count tasks = 0 \<longrightarrow> ?r = 0" by (simp add: rate_zero_of_zero)
  have s: "?r = 0 \<longrightarrow> 20000 * completed_count tasks < length tasks"
  proof
    assume "?r = 0"
    with sb have lt: "?x < 1 / 20000" by (rule rate_zero_small)
    have n: "(0::rat) < of_nat (length tasks)" using assms by simp
    from lt n have "20000 * (of_nat (completed_count tasks) :: rat) < of_nat (length tasks)"
      by (simp add: pos_divide_less_eq)
    then have "(of_nat (20000 * completed_count tasks) :: rat) < of_nat (length tasks)" by simp
    then show "20000 * completed_count tasks < length tasks" by (simp only: of_nat_less_iff)
  qed
  show ?thesis by (intro exI[of _ ?r] conjI r b z s)
qed

text \<open>
  The hypothesis holds for a list of two tasks.
\<close>

theorem completion_rate_range_witness:
  "[completed_task, pending_task] \<noteq> []
   \<and> (\<exists>r. calculate_completion_rate [completed_task, pending_task] = Inr r \<and> 0 \<le> r \<and> r \<le> 100
           \<and> (completed_count [completed_task, pending_task] = 0 \<longrightarrow> r = 0)
           \<and> (r = 0 \<longrightarrow> 20000 * completed_count [completed_task, pending_task] < length [completed_task, pending_task]))"
proof -
  have ne: "[completed_task, pending_task] \<noteq> []" by simp
  show ?thesis using completion_rate_range[OF ne] by (intro conjI ne)
qed

lemma double_rate_1_20001:
  "py_round (float_mul (to_double (1 / 20001)) 100) 2 = 0"
  by code_simp

text \<open>
  C2 as stated fails with one completed task among 20001: the rate is \<open>0\<close> although
  a task is completed.
\<close>

theorem completion_rate_zero_counterexample:
  "replicate 1 completed_task @ replicate 20000 pending_task \<noteq> []
   \<and> calculate_completion_rate (replicate 1 completed_task @ replicate 20000 pending_task) = Inr 0
   \<and> completed_count (replicate 1 completed_task @ replicate 20000 pending_task) = 1"
proof -
  let ?ts = "replicate 1 completed_task @ replicate 20000 pending_task"
  have ne: "?ts \<noteq> []" by simp
  have c: "completed_count ?ts = 1" by (rule sample_counts(1))
  have l: "length ?ts = 20001" by (simp add: sample_counts(2))
  have n1: "(of_nat 1 / of_nat 20001 :: rat) = 1 / 20001" by simp
  have "calculate_completion_rate ?ts = Inr 0"
    unfolding rate_unfold[OF ne] c l n1 by (simp only: double_rate_1_20001)
  then show ?thesis using ne c by blast
qed

subsection \<open>Task store and views\<close>

text \<open>
  C5. Submitting the Add Task form with an empty description leaves the task list exactly
  as it was and renders nothing (so no error either); submitting it with a non-empty
  description appends exactly one record, the one built from the form.
\<close>

theorem add_task_empty_description_ignored:
  "(f_description f = [] \<longrightarrow> add_task_page f tasks = (tasks, []))
   \<and> (submitted f \<and> f_description f \<noteq> [] \<longrightarrow>
        fst (add_task_page f tasks) = tasks @ [new_task f]
        \<and> length (fst (add_task_page f tasks)) = length tasks + 1
        \<and> (\<forall>e \<in> set (snd (add_task_page f tasks)). \<forall>m. e \<noteq> ErrorMsg m))"
  by (simp add: add_task_page_def)

text \<open>
  The form with an empty description and the same form with a description, on a store
  of one task.
\<close>

theorem add_task_empty_description_ignored_witness:
  "add_task_page blank_form [pending_task] = ([pending_task], [])
   \<and> fst (add_task_page filled_form [pending_task]) = [pending_task, new_task filled_form]
   \<and> length (fst (add_task_page filled_form [pending_task])) = 2
   \<and> snd (add_task_page filled_form [pending_task]) = [Success ''Task added successfully!'']"
proof -
  have b: "f_description blank_form = []" by (simp add: blank_form_def)
  have f: "submitted filled_form \<and> f_description filled_form \<noteq> []"
    by (simp add: filled_form_def blank_form_def)
  have s: "snd (add_task_page filled_form [pending_task]) = [Success ''Task added successfully!'']"
    using f by (simp add: add_task_page_def)
  show ?thesis
    using add_task_empty_description_ignored[of blank_form "[pending_task]"]
      add_task_empty_description_ignored[of filled_form "[pending_task]"] b f s
    by simp
qed

text \<open>
  C10. The table of the Task List view holds exactly the tasks whose status equals the
  selected status (any status for \<open>"All"\<close>) and whose priority equals the selected
  priority (any priority for \<open>"All"\<close>), in insertion order; with both filters at
  \<open>"All"\<close> it is the whole task list. No table is shown for the empty list.
\<close>

theorem task_list_filters:
  "displayed_rows (tasks_page status_filter priority_filter tasks)
     = filter (\<lambda>t. (status_filter = ''All'' \<or> status t = status_filter)
                  \<and> (priority_filter = ''All'' \<or> priority t = priority_filter)) tasks
   \<and> displayed_rows (tasks_page ''All'' ''All'' tasks) = tasks"
  by (cases tasks) (auto simp add: tasks_page_def apply_filters_def Let_def intro: filter_cong)

text \<open>
  Three selections on a list of three tasks.
\<close>

theorem task_list_filters_witness:
  "displayed_rows (tasks_page ''Completed'' ''All'' [pending_task, completed_task, pending_task])
     = [completed_task]
   \<and> displayed_rows (tasks_page ''Pending'' ''High'' [pending_task, completed_task, pending_task])
     = [pending_task, pending_task]
   \<and> displayed_rows (tasks_page ''All'' ''All'' [pending_task, completed_task, pending_task])
     = [pending_task, completed_task, pending_task]"
  using task_list_filters[of "''Completed''" "''All''" "[pending_task, completed_task, pending_task]"]
    task_list_filters[of "''Pending''" "''High''" "[pending_task, completed_task, pending_task]"]
  by (simp add: pending_task_def completed_task_def)

subsection \<open>Text preprocessing\<close>

lemma lower_not_space: "is_lower c \<Longrightarrow> \<not> is_space c"
  by (auto simp add: is_lower_def is_space_def Let_def)

lemma space_is_space: "is_space CHR '' ''"
  by (simp add: is_space_def)

lemma lower_char_lower: "is_lower c \<Longrightarrow> lower_char c = c"
  by (simp add: lower_char_def is_lower_def is_upper_def)

lemma lower_char_space: "lower_char CHR '' '' = CHR '' ''"
  by (simp add: lower_char_def is_upper_def)

lemma space_not_letter: "\<not> is_upper CHR '' ''" "\<not> is_lower CHR '' ''"
  by (simp_all add: is_upper_def is_lower_def)

lemma lower_char_not_upper: "\<not> is_upper (lower_char c)"
  by (auto simp add: lower_char_def is_upper_def)

lemma clean_chars: "c \<in> set (sub_non_letters (py_lower s)) \<Longrightarrow> is_lower c \<or> c = CHR '' ''"
  by (auto simp add: sub_non_letters_def py_lower_def lower_char_not_upper)

lemma clean_fixed:
  assumes "\<forall>c \<in> set s. is_lower c \<or> c = CHR '' ''"
  shows "sub_non_letters (py_lower s) = s"
proof -
  have "\<And>c. c \<in> set s \<Longrightarrow> (if is_upper (lower_char c) \<or> is_lower (lower_char c) then lower_char c else CHR '' '') = c"
    using assms by (auto simp add: lower_char_lower lower_char_space space_not_letter)
  then show ?thesis
    by (simp add: sub_non_letters_def py_lower_def map_idI)
qed

lemma split_from_tokens:
  assumes "w \<in> set (split_from cur s)"
  shows "w \<noteq> [] \<and> set w \<subseteq> set cur \<union> {c \<in> set s. \<not> is_space c}"
  using assms
proof (induction s arbitrary: cur)
  case Nil
  then show ?case by (auto split: if_splits)
next
  case (Cons c cs)
  show ?case
  proof (cases "is_space c")
    case True
    show ?thesis
    proof (cases "cur = []")
      case True
      with \<open>is_space c\<close> Cons.prems have "w \<in> set (split_from [] cs)" by simp
      from Cons.IH[OF this] show ?thesis by auto
    next
      case False
      with \<open>is_space c\<close> Cons.prems have "w = cur \<or> w \<in> set (split_from [] cs)" by simp
      then show ?thesis
      proof
        assume "w = cur" with False show ?thesis by auto
      next
        assume "w \<in> set (split_from [] cs)"
        from Cons.IH[OF this] show ?thesis by auto
      qed
    qed
  next
    case False
    with Cons.prems have "w \<in> set (split_from (cur @ [c]) cs)" by simp
    from Cons.IH[OF this] False show ?thesis by auto
  qed
qed

lemma split_tokens_lower:
  assumes "w \<in> set (py_split (sub_non_letters (py_lower s)))"
  shows "w \<noteq> [] \<and> (\<forall>c \<in> set w. is_lower c)"
proof -
  from assms have w: "w \<noteq> []" "set w \<subseteq> {c \<in> set (sub_non_letters (py_lower s)). \<not> is_space c}"
    using split_from_tokens[of w "[]"] by (auto simp add: py_split_def)
  have "\<forall>c \<in> set w. is_lower c"
  proof
    fix c assume "c \<in> set w"
    with w(2) have "c \<in> set (sub_non_letters (py_lower s))" "\<not> is_space c" by auto
    then show "is_lower c" using clean_chars[of c s] space_is_space by auto
  qed
  with w(1) show ?thesis by simp
qed

lemma split_from_word:
  assumes "\<forall>c \<in> set w. \<not> is_space c"
  shows "split_from cur (w @ rest) = split_from (cur @ w) rest"
  using assms by (induction w arbitrary: cur) simp_all

lemma split_join:
  assumes "\<forall>w \<in> set ws. w \<noteq> [] \<and> (\<forall>c \<in> set w. \<not> is_space c)"
  shows "py_split (py_join ws) = ws"
  using assms
proof (induction ws rule: py_join.induct)
  case 1
  show ?case by (simp add: py_split_def)
next
  case (2 w)
  then have "split_from [] (w @ []) = split_from ([] @ w) []"
    by (intro split_from_word) simp
  with 2 show ?case by (simp add: py_split_def)
next
  case (3 w v vs)
  then have w: "w \<noteq> []" "\<forall>c \<in> set w. \<not> is_space c" by simp_all
  have ih: "split_from [] (py_join (v # vs)) = v # vs"
    using 3 by (simp add: py_split_def)
  have "split_from [] (w @ CHR '' '' # py_join (v # vs)) = split_from ([] @ w) (CHR '' '' # py_join (v # vs))"
    using w(2) by (rule split_from_word)
  also have "\<dots> = w # split_from [] (py_join (v # vs))"
    using w(1) space_is_space by simp
  finally show ?case using ih by (simp add: py_split_def)
qed

lemma join_chars: "c \<in> set (py_join ws) \<Longrightarrow> c = CHR '' '' \<or> (\<exists>w \<in> set ws. c \<in> set w)"
  by (induction ws rule: py_join.induct) auto

text \<open>
  C4 (amended). \<open>preprocess_text\<close> is a function of the text, the stemmer and the stop
  word list alone. Applied to its own output it returns that output again, for every
  text in which each word that is kept (a word of the cleaned text that is not a stop
  word) has a stem that is a non-empty lower-case word, is not a stop word, and is left
  unchanged by the stemmer. The condition is on the words of the given text only; the
  stemmer and the stop words are any.
\<close>

theorem preprocess_text_idempotent:
  assumes "\<forall>w \<in> set (py_split (sub_non_letters (py_lower text))). w \<notin> set stopwords \<longrightarrow>
             stem w \<noteq> [] \<and> (\<forall>c \<in> set (stem w). is_lower c)
             \<and> stem w \<notin> set stopwords \<and> stem (stem w) = stem w"
  shows "preprocess_text stem stopwords (preprocess_text stem stopwords text)
           = preprocess_text stem stopwords text"
proof -
  let ?ts = "filter (\<lambda>word. word \<notin> set stopwords) (py_split (sub_non_letters (py_lower text)))"
  let ?ss = "map stem ?ts"
  have out: "preprocess_text stem stopwords text = py_join ?ss"
    by (simp add: preprocess_text_def Let_def)
  have ss: "\<forall>v \<in> set ?ss. v \<noteq> [] \<and> (\<forall>c \<in> set v. is_lower c) \<and> v \<notin> set stopwords \<and> stem v = v"
  proof
    fix v assume "v \<in> set ?ss"
    then obtain w where w: "w \<in> set (py_split (sub_non_letters (py_lower text)))"
      "w \<notin> set stopwords" "v = stem w" by auto
    with assms have "stem w \<noteq> [] \<and> (\<forall>c \<in> set (stem w). is_lower c)
             \<and> stem w \<notin> set stopwords \<and> stem (stem w) = stem w" by blast
    with w(3) show "v \<noteq> [] \<and> (\<forall>c \<in> set v. is_lower c) \<and> v \<notin> set stopwords \<and> stem v = v" by simp
  qed
  have "\<forall>c \<in> set (py_join ?ss). is_lower c \<or> c = CHR '' ''"
  proof
    fix c assume "c \<in> set (py_join ?ss)"
    from join_chars[OF this] ss show "is_lower c \<or> c = CHR '' ''" by blast
  qed
  then have c: "sub_non_letters (py_lower (py_join ?ss)) = py_join ?ss" by (rule clean_fixed)
  have sp: "py_split (py_join ?ss) = ?ss"
    by (rule split_join) (use ss lower_not_space in blast)
  have f: "filter (\<lambda>word. word \<notin> set stopwords) ?ss = ?ss"
    using ss by (intro filter_True) blast
  have m: "map stem ?ss = ?ss"
    using ss by (intro map_idI) blast
  have "preprocess_text stem stopwords (py_join ?ss) = py_join ?ss"
    unfolding preprocess_text_def Let_def c sp f m ..
  then show ?thesis by (simp only: out)
qed

text \<open>
  With the plural stemmer and the sample stop words, the text \<open>Fix the Login bugs!\<close> meets
  the condition: its kept words are \<open>fix\<close>, \<open>login\<close> and \<open>bugs\<close>, with the stems \<open>fix\<close>,
  \<open>login\<close> and \<open>bug\<close>. The stemmer changes a word of it, and a second pass changes
  nothing.
\<close>

theorem preprocess_text_idempotent_witness:
  "preprocess_text plural_stem sample_stopwords ''Fix the Login bugs!'' = ''fix login bug''
   \<and> preprocess_text plural_stem sample_stopwords
       (preprocess_text plural_stem sample_stopwords ''Fix the Login bugs!'')
       = preprocess_text plural_stem sample_stopwords ''Fix the Login bugs!''"
proof -
  have h: "\<forall>w \<in> set (py_split (sub_non_letters (py_lower ''Fix the Login bugs!''))).
             w \<notin> set sample_stopwords \<longrightarrow>
             plural_stem w \<noteq> [] \<and> (\<forall>c \<in> set (plural_stem w). is_lower c)
             \<and> plural_stem w \<notin> set sample_stopwords \<and> plural_stem (plural_stem w) = plural_stem w"
    by code_simp
  have v: "preprocess_text plural_stem sample_stopwords ''Fix the Login bugs!'' = ''fix login bug''"
    by code_simp
  show ?thesis
    by (intro conjI v preprocess_text_idempotent[OF h])
qed

text \<open>
  C4 as stated fails for a stemmer that strips a plural \<open>s\<close>, as Porter's does in its
  first step, when the stem is a stop word: \<open>Wills\<close> becomes \<open>will\<close>, and the second
  pass drops \<open>will\<close>.
\<close>

theorem preprocess_text_idempotent_counterexample:
  "preprocess_text plural_stem sample_stopwords ''Wills'' = ''will''
   \<and> preprocess_text plural_stem sample_stopwords
       (preprocess_text plural_stem sample_stopwords ''Wills'') = ''''
   \<and> preprocess_text plural_stem sample_stopwords
       (preprocess_text plural_stem sample_stopwords ''Wills'')
       \<noteq> preprocess_text plural_stem sample_stopwords ''Wills''"
  by code_simp

subsection \<open>Recommended user\<close>

lemma fold_min_split:
  fixes b :: "'a \<times> nat"
  assumes "\<forall>q \<in> set pre. snd b < snd q" "\<forall>q \<in> set post. snd b \<le> snd q"
  shows "\<exists>pre' post'. pre @ b # post @ ps
             = pre' @ foldl (\<lambda>best q. if snd q < snd best then q else best) b ps # post'
           \<and> (\<forall>q \<in> set pre'. snd (foldl (\<lambda>best q. if snd q < snd best then q else best) b ps) < snd q)
           \<and> (\<forall>q \<in> set post'. snd (foldl (\<lambda>best q. if snd q < snd best then q else best) b ps) \<le> snd q)"
  using assms
proof (induction ps arbitrary: pre post b)
  case Nil
  then show ?case by auto
next
  case (Cons q qs)
  show ?case
  proof (cases "snd q < snd b")
    case True
    have 1: "\<forall>r \<in> set (pre @ b # post). snd q < snd r"
      using Cons.prems True by fastforce
    have 2: "\<forall>r \<in> set ([] :: ('a \<times> nat) list). snd q \<le> snd r" by simp
    from Cons.IH[OF 1 2] True show ?thesis by simp
  next
    case False
    have 2: "\<forall>r \<in> set (post @ [q]). snd b \<le> snd r"
      using Cons.prems False by auto
    from Cons.IH[OF Cons.prems(1) 2] False show ?thesis by simp
  qed
qed

lemma idxmin_split:
  assumes "ps \<noteq> []"
  shows "\<exists>r pre post. idxmin ps = Inr (fst r) \<and> ps = pre @ r # post
           \<and> (\<forall>q \<in> set pre. snd r < snd q) \<and> (\<forall>q \<in> set post. snd r \<le> snd q)"
proof -
  from assms obtain p qs where ps: "ps = p # qs" by (cases ps) auto
  have "\<forall>q \<in> set ([] :: ('a \<times> nat) list). snd p < snd q"
       "\<forall>q \<in> set ([] :: ('a \<times> nat) list). snd p \<le> snd q" by simp_all
  from fold_min_split[OF this, of qs] obtain pre' post' where
    d: "p # qs = pre' @ foldl (\<lambda>best q. if snd q < snd best then q else best) p qs # post'"
       "\<forall>q \<in> set pre'. snd (foldl (\<lambda>best q. if snd q < snd best then q else best) p qs) < snd q"
       "\<forall>q \<in> set post'. snd (foldl (\<lambda>best q. if snd q < snd best then q else best) p qs) \<le> snd q"
    by auto
  let ?r = "foldl (\<lambda>best q. if snd q < snd best then q else best) p qs"
  have "idxmin ps = Inr (fst ?r)" by (simp add: ps)
  with d show ?thesis unfolding ps by blast
qed

lemma unique_set: "set (unique xs) = set xs"
  by (induction xs rule: unique.induct) auto

lemma find_filter_neq: "\<not> P x \<Longrightarrow> find P (filter (\<lambda>y. y \<noteq> x) xs) = find P xs"
  by (induction xs) auto

lemma find_unique: "find P (unique xs) = find P xs"
  by (induction xs rule: unique.induct) (auto simp add: find_filter_neq)

lemma find_split:
  assumes "xs = pre @ r # post" "P r" "\<forall>q \<in> set pre. \<not> P q"
  shows "find P xs = Some r"
  using assms by (induction pre arbitrary: xs) auto

lemma find_map: "find P (map f xs) = map_option f (find (\<lambda>x. P (f x)) xs)"
  by (induction xs) auto

lemma find_filter_hd: "find P xs = (case filter P xs of [] \<Rightarrow> None | x # _ \<Rightarrow> Some x)"
  by (induction xs) auto

lemma unique_nonempty: "xs \<noteq> [] \<Longrightarrow> unique xs \<noteq> []"
  by (cases xs) auto

text \<open>
  C6. For a non-empty \<open>assigned_to\<close> column \<open>recommend_user\<close> returns a user (it does
  not raise); the user occurs in the column; no user of the column has fewer rows; and
  it is the first user of the column, in row order, that has the minimum number of rows.
\<close>

theorem recommend_user_fewest_first:
  assumes "assigned_to \<noteq> []"
  shows "\<exists>u. recommend_user assigned_to = Inr u
           \<and> u \<in> set assigned_to
           \<and> (\<forall>v \<in> set assigned_to. count_list assigned_to u \<le> count_list assigned_to v)
           \<and> find (\<lambda>v. \<forall>w \<in> set assigned_to. count_list assigned_to v \<le> count_list assigned_to w)
                  assigned_to = Some u"
proof -
  let ?g = "\<lambda>v. (v, count_list assigned_to v)"
  let ?xs = "map ?g (unique assigned_to)"
  let ?k = "\<lambda>p :: 'a \<times> nat. - int (snd p)"
  let ?ps = "sort_key ?k ?xs"
  have ps: "value_counts assigned_to = ?ps" by (simp add: value_counts_def)
  have set_ps: "set ?ps = ?g ` set assigned_to" by (simp add: unique_set)
  have "set ?ps \<noteq> {}" unfolding set_ps using assms by simp
  then have "?ps \<noteq> []" by (metis set_empty)
  from idxmin_split[OF this] obtain r pre post where
    r: "idxmin ?ps = Inr (fst r)" "?ps = pre @ r # post"
       "\<forall>q \<in> set pre. snd r < snd q" "\<forall>q \<in> set post. snd r \<le> snd q"
    by blast
  let ?u = "fst r"
  have "r \<in> set ?ps" by (subst r(2)) simp
  then have ru: "r = ?g ?u" and u: "?u \<in> set assigned_to"
    unfolding set_ps by auto
  have cnt: "snd r = count_list assigned_to ?u" using ru by (metis snd_conv)
  have min_ps: "\<forall>q \<in> set ?ps. snd r \<le> snd q"
    by (subst r(2)) (use r(3,4) in auto)
  have minimal: "\<forall>v \<in> set assigned_to. count_list assigned_to ?u \<le> count_list assigned_to v"
  proof
    fix v assume "v \<in> set assigned_to"
    then have "?g v \<in> set ?ps" unfolding set_ps by simp
    with min_ps have "snd r \<le> snd (?g v)" by blast
    then show "count_list assigned_to ?u \<le> count_list assigned_to v" using cnt by simp
  qed
  let ?P = "\<lambda>p :: 'a \<times> nat. ?k p = ?k r"
  have "find ?P ?ps = Some r"
    by (rule find_split[OF r(2)]) (use r(3) in auto)
  then have "(case filter ?P ?ps of [] \<Rightarrow> None | x # _ \<Rightarrow> Some x) = Some r"
    by (simp only: find_filter_hd)
  then have "(case filter ?P ?xs of [] \<Rightarrow> None | x # _ \<Rightarrow> Some x) = Some r"
    by (simp only: sort_key_stable)
  then have "find ?P ?xs = Some r" by (simp only: find_filter_hd)
  then have "map_option ?g (find (\<lambda>v. ?P (?g v)) assigned_to) = Some r"
    by (simp only: find_map find_unique)
  then obtain u' where u': "find (\<lambda>v. ?P (?g v)) assigned_to = Some u'" "?g u' = r"
    by auto
  from u'(2) have "u' = ?u" by auto
  with u'(1) have f1: "find (\<lambda>v. ?P (?g v)) assigned_to = Some ?u" by simp
  have "find (\<lambda>v. \<forall>w \<in> set assigned_to. count_list assigned_to v \<le> count_list assigned_to w) assigned_to
          = find (\<lambda>v. ?P (?g v)) assigned_to"
  proof (rule find_cong[OF refl])
    fix v assume v: "v \<in> set assigned_to"
    show "(\<forall>w \<in> set assigned_to. count_list assigned_to v \<le> count_list assigned_to w) = ?P (?g v)"
    proof
      assume a: "\<forall>w \<in> set assigned_to. count_list assigned_to v \<le> count_list assigned_to w"
      with u have "count_list assigned_to v \<le> count_list assigned_to ?u" by blast
      moreover from minimal v have "count_list assigned_to ?u \<le> count_list assigned_to v" by blast
      ultimately show "?P (?g v)" using cnt by simp
    next
      assume "?P (?g v)"
      then have "count_list assigned_to v = count_list assigned_to ?u" using cnt by simp
      with minimal show "\<forall>w \<in> set assigned_to. count_list assigned_to v \<le> count_list assigned_to w"
        by simp
    qed
  qed
  with f1 have first: "find (\<lambda>v. \<forall>w \<in> set assigned_to. count_list assigned_to v \<le> count_list assigned_to w) assigned_to = Some ?u"
    by simp
  have "recommend_user assigned_to = Inr ?u"
    by (simp only: recommend_user_def ps r(1))
  then show ?thesis using u minimal first by blast
qed

text \<open>
  A column of six rows: bob and alice have two rows each, carol and dave one; carol comes
  first.
\<close>

theorem recommend_user_fewest_first_witness:
  "[''bob'', ''alice'', ''bob'', ''carol'', ''alice'', ''dave''] \<noteq> []
   \<and> recommend_user [''bob'', ''alice'', ''bob'', ''carol'', ''alice'', ''dave''] = Inr ''carol''
   \<and> (\<exists>u. recommend_user [''bob'', ''alice'', ''bob'', ''carol'', ''alice'', ''dave''] = Inr u
         \<and> u \<in> set [''bob'', ''alice'', ''bob'', ''carol'', ''alice'', ''dave''])"
proof -
  have ne: "[''bob'', ''alice'', ''bob'', ''carol'', ''alice'', ''dave''] \<noteq> []" by simp
  have v: "recommend_user [''bob'', ''alice'', ''bob'', ''carol'', ''alice'', ''dave''] = Inr ''carol''"
    by code_simp
  from recommend_user_fewest_first[OF ne] have
    "\<exists>u. recommend_user [''bob'', ''alice'', ''bob'', ''carol'', ''alice'', ''dave''] = Inr u
         \<and> u \<in> set [''bob'', ''alice'', ''bob'', ''carol'', ''alice'', ''dave'']"
    by blast
  with ne v show ?thesis by blast
qed

subsection \<open>Tuned classifier\<close>

lemma optimize_length: "length (optimize obj n finished) = length finished + n"
  by (induction n arbitrary: finished) simp_all

lemma optimize_all:
  assumes "\<forall>t \<in> set finished. Q t" "\<forall>h. Q (obj h)"
  shows "\<forall>t \<in> set (optimize obj n finished). Q t"
  using assms(1)
proof (induction n arbitrary: finished)
  case 0
  then show ?case by simp
next
  case (Suc n)
  have "\<forall>t \<in> set (finished @ [obj finished]). Q t"
    using Suc.prems assms(2) by auto
  from Suc.IH[OF this] show ?case by simp
qed

lemma fold_best:
  fixes b :: "xgb_params \<times> rat"
  shows "foldl (\<lambda>best t'. if snd best < snd t' then t' else best) b ts \<in> set (b # ts)
       \<and> (\<forall>t \<in> set (b # ts). snd t \<le> snd (foldl (\<lambda>best t'. if snd best < snd t' then t' else best) b ts))"
proof (induction ts arbitrary: b)
  case Nil
  show ?case by simp
next
  case (Cons t ts)
  let ?f = "\<lambda>best t' :: xgb_params \<times> rat. if snd best < snd t' then t' else best"
  show ?case
  proof (cases "snd b < snd t")
    case True
    from Cons.IH[of t] True show ?thesis by auto
  next
    case False
    from Cons.IH[of b] False show ?thesis by auto
  qed
qed

lemma best_trial_max:
  assumes "ts \<noteq> []"
  shows "\<exists>b. best_trial ts = Inr b \<and> b \<in> set ts \<and> (\<forall>t \<in> set ts. snd t \<le> snd b)"
proof -
  from assms obtain t ts' where ts: "ts = t # ts'" by (cases ts) auto
  show ?thesis unfolding ts using fold_best[of t ts'] by (simp del: foldl_Cons set_simps) 
qed

lemma learning_rate_bounds: "to_double (1 / 100) \<le> to_double (3 / 10)"
  by code_simp

lemma optimize_take: "take (length finished) (optimize obj n finished) = finished"
proof (induction n arbitrary: finished)
  case 0
  show ?case by simp
next
  case (Suc n)
  have "take (length finished) (optimize obj n (finished @ [obj finished]))
        = take (length finished)
            (take (length (finished @ [obj finished])) (optimize obj n (finished @ [obj finished])))"
    by simp
  also have "\<dots> = take (length finished) (finished @ [obj finished])"
    by (simp only: Suc.IH)
  finally show ?case by simp
qed

lemma optimize_nth:
  "i < n \<Longrightarrow> optimize obj n finished ! (length finished + i)
                 = obj (take (length finished + i) (optimize obj n finished))"
proof (induction n arbitrary: finished i)
  case 0
  then show ?case by simp
next
  case (Suc n)
  let ?fin = "finished @ [obj finished]"
  let ?R = "optimize obj n ?fin"
  show ?case
  proof (cases i)
    case 0
    have t: "take (Suc (length finished)) ?R = ?fin"
      using optimize_take[of ?fin obj n] by simp
    have "?R ! length finished = take (Suc (length finished)) ?R ! length finished"
      by simp
    also have "\<dots> = obj finished" by (simp only: t) simp
    finally have a: "?R ! length finished = obj finished" .
    have "take (length finished) ?R = take (length finished) (take (Suc (length finished)) ?R)"
      by simp
    also have "\<dots> = finished" by (simp only: t) simp
    finally have b: "take (length finished) ?R = finished" .
    from a b 0 show ?thesis by simp
  next
    case (Suc j)
    with Suc.prems have "j < n" by simp
    from Suc.IH[OF this, of ?fin] Suc show ?thesis by simp
  qed
qed

lemma optimize_nth_empty:
  "i < n \<Longrightarrow> optimize obj n [] ! i = obj (take i (optimize obj n []))"
  using optimize_nth[of i n obj "[]"] by simp

text \<open>
  C7. \<open>optimize_xgb\<close> runs exactly 10 trials. The parameters of trial \<open>i\<close> are what the
  sampler proposes, given the trials finished before it, for \<open>n_estimators\<close> with the
  bounds 50 and 200, for \<open>max_depth\<close> with the bounds 2 and 10 and for \<open>learning_rate\<close>
  with the bounds 0.01 and 0.3; so for every sampler that keeps its proposals within the
  bounds it is given they lie in \<open>[50, 200]\<close>, \<open>[2, 10]\<close> and \<open>[0.01, 0.3]\<close>. Each trial
  fits a model with its parameters on \<open>(X, y)\<close> and takes as its value the score of that
  model on the same \<open>(X, y)\<close>; the function then returns a model fitted on \<open>(X, y)\<close> with
  the parameters of a trial whose value no other trial exceeds.
\<close>

theorem optimize_xgb_search:
  assumes "\<forall>h name lo hi. lo \<le> hi \<longrightarrow>
             lo \<le> suggest_int trial h name lo hi \<and> suggest_int trial h name lo hi \<le> hi"
      and "\<forall>h name lo hi. lo \<le> hi \<longrightarrow>
             lo \<le> suggest_float trial h name lo hi \<and> suggest_float trial h name lo hi \<le> hi"
  shows "\<exists>best. length (optimize (objective trial fit score X y) 10 []) = 10
           \<and> (\<forall>i<10. fst (optimize (objective trial fit score X y) 10 [] ! i) =
                 \<lparr> n_estimators =
                     suggest_int trial (take i (optimize (objective trial fit score X y) 10 []))
                       ''n_estimators'' 50 200,
                   max_depth =
                     suggest_int trial (take i (optimize (objective trial fit score X y) 10 []))
                       ''max_depth'' 2 10,
                   learning_rate =
                     suggest_float trial (take i (optimize (objective trial fit score X y) 10 []))
                       ''learning_rate'' (to_double (1 / 100)) (to_double (3 / 10)) \<rparr>)
           \<and> (\<forall>t \<in> set (optimize (objective trial fit score X y) 10 []).
                 50 \<le> n_estimators (fst t) \<and> n_estimators (fst t) \<le> 200
               \<and> 2 \<le> max_depth (fst t) \<and> max_depth (fst t) \<le> 10
               \<and> to_double (1 / 100) \<le> learning_rate (fst t)
               \<and> learning_rate (fst t) \<le> to_double (3 / 10)
               \<and> snd t = score (fit (fst t) X y) X y)
           \<and> best \<in> set (optimize (objective trial fit score X y) 10 [])
           \<and> (\<forall>t \<in> set (optimize (objective trial fit score X y) 10 []). snd t \<le> snd best)
           \<and> optimize_xgb trial fit score X y = Inr (fit (fst best) X y)"
proof -
  let ?obj = "objective trial fit score X y"
  let ?ts = "optimize ?obj 10 []"
  let ?Q = "\<lambda>t :: xgb_params \<times> rat.
                 50 \<le> n_estimators (fst t) \<and> n_estimators (fst t) \<le> 200
               \<and> 2 \<le> max_depth (fst t) \<and> max_depth (fst t) \<le> 10
               \<and> to_double (1 / 100) \<le> learning_rate (fst t)
               \<and> learning_rate (fst t) \<le> to_double (3 / 10)
               \<and> snd t = score (fit (fst t) X y) X y"
  have len: "length ?ts = 10" by (simp add: optimize_length)
  have drawn: "\<forall>i<10. fst (?ts ! i) =
                 \<lparr> n_estimators = suggest_int trial (take i ?ts) ''n_estimators'' 50 200,
                   max_depth = suggest_int trial (take i ?ts) ''max_depth'' 2 10,
                   learning_rate = suggest_float trial (take i ?ts) ''learning_rate''
                                     (to_double (1 / 100)) (to_double (3 / 10)) \<rparr>"
  proof (intro allI impI)
    fix i :: nat assume "i < 10"
    then have "?ts ! i = ?obj (take i ?ts)" by (rule optimize_nth_empty)
    then have "fst (?ts ! i) = fst (?obj (take i ?ts))" by (rule arg_cong)
    then show "fst (?ts ! i) =
                 \<lparr> n_estimators = suggest_int trial (take i ?ts) ''n_estimators'' 50 200,
                   max_depth = suggest_int trial (take i ?ts) ''max_depth'' 2 10,
                   learning_rate = suggest_float trial (take i ?ts) ''learning_rate''
                                     (to_double (1 / 100)) (to_double (3 / 10)) \<rparr>"
      by (simp add: objective_def Let_def)
  qed
  have step: "\<forall>h. ?Q (?obj h)"
  proof
    fix h
    have i1: "50 \<le> suggest_int trial h ''n_estimators'' 50 200 \<and> suggest_int trial h ''n_estimators'' 50 200 \<le> 200"
      using assms(1) by simp
    have i2: "2 \<le> suggest_int trial h ''max_depth'' 2 10 \<and> suggest_int trial h ''max_depth'' 2 10 \<le> 10"
      using assms(1) by simp
    have f: "to_double (1 / 100) \<le> suggest_float trial h ''learning_rate'' (to_double (1 / 100)) (to_double (3 / 10))
           \<and> suggest_float trial h ''learning_rate'' (to_double (1 / 100)) (to_double (3 / 10)) \<le> to_double (3 / 10)"
      using assms(2) learning_rate_bounds by blast
    show "?Q (?obj h)" using i1 i2 f by (simp add: objective_def Let_def)
  qed
  have all: "\<forall>t \<in> set ?ts. ?Q t"
    by (rule optimize_all[OF _ step]) simp
  have "?ts \<noteq> []" using len by auto
  from best_trial_max[OF this] obtain b where
    b: "best_trial ?ts = Inr b" "b \<in> set ?ts" "\<forall>t \<in> set ?ts. snd t \<le> snd b" by blast
  have r: "optimize_xgb trial fit score X y = Inr (fit (fst b) X y)"
    by (simp add: optimize_xgb_def b(1))
  show ?thesis by (intro exI[of _ b] conjI len drawn all b(2) b(3) r)
qed

text \<open>
  The stepping sampler keeps to the bounds and its proposals change from trial to trial.
  With the identity as \<open>fit\<close> and the depth as score, the trials are listed with their
  parameters, and the returned model is the first trial of the largest depth, the ninth.
\<close>

theorem optimize_xgb_search_witness:
  "(\<exists>best. length (optimize (objective stepping_sampler (\<lambda>p X y. p) (\<lambda>m X y. of_int (max_depth m)) () ()) 10 []) = 10
        \<and> best \<in> set (optimize (objective stepping_sampler (\<lambda>p X y. p) (\<lambda>m X y. of_int (max_depth m)) () ()) 10 [])
        \<and> optimize_xgb stepping_sampler (\<lambda>p X y. p) (\<lambda>m X y. of_int (max_depth m)) () () = Inr (fst best))
   \<and> map (\<lambda>t. (n_estimators (fst t), max_depth (fst t)))
        (optimize (objective stepping_sampler (\<lambda>p X y. p) (\<lambda>m X y. of_int (max_depth m)) () ()) 10 [])
       = [(50, 2), (51, 3), (52, 4), (53, 5), (54, 6), (55, 7), (56, 8), (57, 9), (58, 10), (59, 10)]
   \<and> optimize_xgb stepping_sampler (\<lambda>p X y. p) (\<lambda>m X y. of_int (max_depth m)) () ()
       = Inr \<lparr> n_estimators = 58, max_depth = 10, learning_rate = to_double (3 / 10) \<rparr>"
proof -
  have h1: "\<forall>h name lo hi. lo \<le> hi \<longrightarrow>
       lo \<le> suggest_int stepping_sampler h name lo hi \<and> suggest_int stepping_sampler h name lo hi \<le> hi"
    by (simp add: stepping_sampler_def)
  have h2: "\<forall>h name lo hi. lo \<le> hi \<longrightarrow>
       lo \<le> suggest_float stepping_sampler h name lo hi \<and> suggest_float stepping_sampler h name lo hi \<le> hi"
    by (simp add: stepping_sampler_def)
  have l: "map (\<lambda>t. (n_estimators (fst t), max_depth (fst t)))
        (optimize (objective stepping_sampler (\<lambda>p X y. p) (\<lambda>m X y. of_int (max_depth m)) () ()) 10 [])
       = [(50, 2), (51, 3), (52, 4), (53, 5), (54, 6), (55, 7), (56, 8), (57, 9), (58, 10), (59, 10)]"
    by (simp add: objective_def stepping_sampler_def eval_nat_numeral)
  have v: "optimize_xgb stepping_sampler (\<lambda>p X y. p) (\<lambda>m X y. of_int (max_depth m)) () ()
       = Inr \<lparr> n_estimators = 58, max_depth = 10, learning_rate = to_double (3 / 10) \<rparr>"
    by (simp add: optimize_xgb_def objective_def stepping_sampler_def eval_nat_numeral)
  have e: "\<exists>best. length (optimize (objective stepping_sampler (\<lambda>p X y. p) (\<lambda>m X y. of_int (max_depth m)) () ()) 10 []) = 10
        \<and> best \<in> set (optimize (objective stepping_sampler (\<lambda>p X y. p) (\<lambda>m X y. of_int (max_depth m)) () ()) 10 [])
        \<and> optimize_xgb stepping_sampler (\<lambda>p X y. p) (\<lambda>m X y. of_int (max_depth m)) () () = Inr (fst best)"
    using optimize_xgb_search[OF h1 h2, of "\<lambda>p X y. p" "\<lambda>m X y. of_int (max_depth m)" "()" "()"]
    by (elim exE conjE, intro exI conjI)
  show ?thesis by (intro conjI e l v)
qed

subsection \<open>The task store over a session\<close>

text \<open>
  The task list a run leaves behind is the one it found, with the record built from the
  form appended when the page is Add Task and the form was submitted with a description
  that is not empty.
\<close>

lemma script_store:
  "fst (script L inp session) =
     (case session of None \<Rightarrow> [] | Some ts \<Rightarrow> ts)
     @ (if i_page inp = AddTask \<and> submitted (i_form inp) \<and> f_description (i_form inp) \<noteq> []
        then [new_task (i_form inp)] else [])"
  by (cases "i_page inp") (simp_all add: script_def add_task_page_def Let_def)

text \<open>
  Over any sequence of runs the task list grows only at its end, by the records of the
  successful submissions in their order.
\<close>

lemma run_session_store:
  "run_session L inps (Some ts) =
     Some (ts @ map (\<lambda>i. new_task (i_form i))
                  (filter (\<lambda>i. i_page i = AddTask \<and> submitted (i_form i)
                                \<and> f_description (i_form i) \<noteq> []) inps))"
proof (induction inps arbitrary: ts)
  case Nil
  show ?case by simp
next
  case (Cons inp inps)
  show ?case by (simp add: script_store Cons.IH)
qed

text \<open>
  C9. A run of the script leaves the stored task list as it found it, except a run of
  the Add Task page whose form was submitted with a description that is not empty, which
  appends the one record built from the form; Dashboard, Task List and AI Insights leave
  the list as it is. Hence after any sequence of runs the list is the initial list,
  every record and the order unchanged, followed by the records of the successful
  submissions in the order they were made.
\<close>

theorem task_store_frame:
  "fst (script L inp session) =
     (case session of None \<Rightarrow> [] | Some ts \<Rightarrow> ts)
     @ (if i_page inp = AddTask \<and> submitted (i_form inp) \<and> f_description (i_form inp) \<noteq> []
        then [new_task (i_form inp)] else [])
   \<and> run_session L inps (Some ts) =
     Some (ts @ map (\<lambda>i. new_task (i_form i))
                  (filter (\<lambda>i. i_page i = AddTask \<and> submitted (i_form i)
                                \<and> f_description (i_form i) \<noteq> []) inps))"
  by (intro conjI script_store run_session_store)

text \<open>
  A session of five runs over a store of one task: one submission is stored, the
  submission with the empty description and the three other pages add nothing.
\<close>

theorem task_store_frame_witness:
  "fst (script sample_libs (hd sample_inputs) None) = [new_task filled_form]
   \<and> run_session sample_libs sample_inputs (Some [completed_task])
       = Some [completed_task, new_task filled_form]"
  using task_store_frame[of sample_libs "hd sample_inputs" None sample_inputs "[completed_task]"]
  by (simp add: sample_inputs_def Let_def blank_form_def filled_form_def)

subsection \<open>Classification report and confusion matrix\<close>

text \<open>
  A pair of labels occurs among the samples at most as often as its first label.
\<close>

lemma count_zip_le:
  "count_list (zip xs ys) (a, b) \<le> count_list xs a"
proof (induction xs arbitrary: ys)
  case Nil
  show ?case by simp
next
  case (Cons x xs)
  show ?case
  proof (cases ys)
    case Nil
    then show ?thesis by simp
  next
    case (Cons y ys')
    with Cons.IH[of ys'] show ?thesis by auto
  qed
qed

text \<open>
  Over the labels \<open>0, ..., n - 1\<close>, with every true label among them, the confusion
  matrix is returned and counts each pair of labels.
\<close>

lemma confusion_matrix_range:
  assumes len: "length y_pred = length y_true"
    and rng: "\<forall>l\<in>set y_true. l < n"
    and pos: "0 < n"
  shows "confusion_matrix y_true y_pred [0 ..< n] =
           Inr (map (\<lambda>i. map (\<lambda>j. count_list (zip y_true y_pred) (i, j)) [0 ..< n]) [0 ..< n])"
proof (cases "y_true = []")
  case True
  with pos len show ?thesis by (simp add: confusion_matrix_def)
next
  case False
  then obtain l where l: "l \<in> set y_true" by (cases y_true) auto
  with rng have "l < n" by blast
  with l have "l \<in> set (filter (\<lambda>l. l \<in> set y_true) [0 ..< n])" by simp
  then have "filter (\<lambda>l. l \<in> set y_true) [0 ..< n] \<noteq> []" by (metis empty_iff empty_set)
  with False pos len show ?thesis by (simp add: confusion_matrix_def)
qed

lemma classification_report_range:
  assumes len: "length y_pred = length y_true"
  shows "classification_report y_true y_pred [0 ..< length classes] classes z =
           Inr (map (\<lambda>i. class_row z y_true y_pred (classes ! i) i) [0 ..< length classes])"
proof -
  have "map (\<lambda>(target_name, l). class_row z y_true y_pred target_name l)
          (zip classes [0 ..< length classes])
        = map (\<lambda>i. class_row z y_true y_pred (classes ! i) i) [0 ..< length classes]"
    by (rule nth_equalityI) simp_all
  with len show ?thesis by (simp add: classification_report_def)
qed

text \<open>
  C8. When the classifier returns one prediction for each test sample, the test labels are
  codes of the encoder's classes and there is at least one class, the page obtains both
  the report and the confusion matrix, and no error. The matrix has one row and one
  column for each class of the encoder, entry \<open>(i, j)\<close> counting the test samples of class
  \<open>i\<close> predicted as \<open>j\<close>; the row of a class absent from the test fold is all zeros. The
  report has one row for each class, under the class's name; a class nothing was
  predicted as has precision 0, a class absent from the test fold has recall 0, and a
  class with neither has F1 score 0.
\<close>

theorem insights_report_all_classes:
  assumes len: "length y_pred = length y_test"
    and rng: "\<forall>l\<in>set y_test. l < length classes"
    and ne: "classes \<noteq> []"
  shows "\<exists>report cm. insights_report classes y_test y_pred = Inr (report, cm)
     \<and> length cm = length classes
     \<and> (\<forall>i<length classes. length (cm ! i) = length classes
          \<and> (\<forall>j<length classes. cm ! i ! j = count_list (zip y_test y_pred) (i, j))
          \<and> (count_list y_test i = 0 \<longrightarrow> cm ! i = replicate (length classes) 0))
     \<and> map row_name report = classes
     \<and> (\<forall>i<length classes.
          report ! i = class_row 0 y_test y_pred (classes ! i) i
          \<and> row_support (report ! i) = count_list y_test i
          \<and> (count_list y_pred i = 0 \<longrightarrow> row_precision (report ! i) = 0)
          \<and> (count_list y_test i = 0 \<longrightarrow> row_recall (report ! i) = 0)
          \<and> (count_list y_test i = 0 \<and> count_list y_pred i = 0 \<longrightarrow> row_f1 (report ! i) = 0))"
proof -
  let ?n = "length classes"
  let ?report = "map (\<lambda>i. class_row 0 y_test y_pred (classes ! i) i) [0 ..< ?n]"
  let ?cm = "map (\<lambda>i. map (\<lambda>j. count_list (zip y_test y_pred) (i, j)) [0 ..< ?n]) [0 ..< ?n]"
  from ne have pos: "0 < ?n" by simp
  have r: "insights_report classes y_test y_pred = Inr (?report, ?cm)"
    by (simp add: insights_report_def Let_def classification_report_range[OF len]
        confusion_matrix_range[OF len rng pos])
  have c1: "length ?cm = ?n" by simp
  have c2: "\<forall>i<?n. length (?cm ! i) = ?n
          \<and> (\<forall>j<?n. ?cm ! i ! j = count_list (zip y_test y_pred) (i, j))
          \<and> (count_list y_test i = 0 \<longrightarrow> ?cm ! i = replicate ?n 0)"
  proof (intro allI impI conjI)
    fix i assume i: "i < ?n"
    then show "length (?cm ! i) = ?n" by simp
    show "?cm ! i ! j = count_list (zip y_test y_pred) (i, j)" if "j < ?n" for j
      using i that by simp
    show "?cm ! i = replicate ?n 0" if z: "count_list y_test i = 0"
    proof -
      have "count_list (zip y_test y_pred) (i, j) = 0" for j
        using count_zip_le[of y_test y_pred i j] z by simp
      with i show ?thesis by (simp add: map_replicate_const)
    qed
  qed
  have c3: "map row_name ?report = classes"
    by (rule nth_equalityI) (simp_all add: class_row_def Let_def)
  have c4: "\<forall>i<?n.
          ?report ! i = class_row 0 y_test y_pred (classes ! i) i
          \<and> row_support (?report ! i) = count_list y_test i
          \<and> (count_list y_pred i = 0 \<longrightarrow> row_precision (?report ! i) = 0)
          \<and> (count_list y_test i = 0 \<longrightarrow> row_recall (?report ! i) = 0)
          \<and> (count_list y_test i = 0 \<and> count_list y_pred i = 0 \<longrightarrow> row_f1 (?report ! i) = 0)"
    by (simp add: class_row_def Let_def prf_divide_def)
  show ?thesis
    by (intro exI[of _ ?report] exI[of _ ?cm] conjI r c1 c2 c3 c4)
qed

text \<open>
  Three classes, the third absent from the test fold and nothing predicted as the second
  or the third.
\<close>

theorem insights_report_all_classes_witness:
  "length [0, 0, 0 :: nat] = length [0, 1, 1 :: nat]
   \<and> [''High'', ''Low'', ''Medium''] \<noteq> []
   \<and> (\<exists>report cm. insights_report [''High'', ''Low'', ''Medium''] [0, 1, 1] [0, 0, 0]
          = Inr (report, cm))
   \<and> insights_report [''High'', ''Low'', ''Medium''] [0, 1, 1] [0, 0, 0]
       = Inr ([\<lparr> row_name = ''High'', row_precision = to_double (1 / 3), row_recall = 1,
                  row_f1 = 1 / 2, row_support = 1 \<rparr>,
               \<lparr> row_name = ''Low'', row_precision = 0, row_recall = 0, row_f1 = 0,
                  row_support = 2 \<rparr>,
               \<lparr> row_name = ''Medium'', row_precision = 0, row_recall = 0, row_f1 = 0,
                  row_support = 0 \<rparr>],
              [[1, 0, 0], [2, 0, 0], [0, 0, 0]])"
proof -
  have h1: "length [0, 0, 0 :: nat] = length [0, 1, 1 :: nat]" by simp
  have h2: "\<forall>l\<in>set [0, 1, 1 :: nat]. l < length [''High'', ''Low'', ''Medium'']" by simp
  have h3: "[''High'', ''Low'', ''Medium''] \<noteq> []" by simp
  have e: "\<exists>report cm. insights_report [''High'', ''Low'', ''Medium''] [0, 1, 1] [0, 0, 0]
          = Inr (report, cm)"
    using insights_report_all_classes[OF h1 h2 h3] by (elim exE conjE, intro exI)
  have v: "insights_report [''High'', ''Low'', ''Medium''] [0, 1, 1] [0, 0, 0]
       = Inr ([\<lparr> row_name = ''High'', row_precision = to_double (1 / 3), row_recall = 1,
                  row_f1 = 1 / 2, row_support = 1 \<rparr>,
               \<lparr> row_name = ''Low'', row_precision = 0, row_recall = 0, row_f1 = 0,
                  row_support = 2 \<rparr>,
               \<lparr> row_name = ''Medium'', row_precision = 0, row_recall = 0, row_f1 = 0,
                  row_support = 0 \<rparr>],
              [[1, 0, 0], [2, 0, 0], [0, 0, 0]])"
    by code_simp
  show ?thesis by (intro conjI h1 h3 e v)
qed

subsection \<open>Features of the AI Insights pipeline\<close>

text \<open>
  The features are the encoding of the descriptions as uploaded; the column
  \<open>processed\<close> is not read.
\<close>

lemma prepare_features:
  "p_X (prepare L uploaded) = l_encode L (map d_description (dropna uploaded))"
  by (simp add: prepare_def Let_def get_sentence_embeddings_def split: prod.splits)

text \<open>
  C3. The claim is that the embedding vectors used as features are computed from the
  preprocessed text. On the sample upload, with an encoder that returns each sentence as
  its own vector, the features are the descriptions as uploaded; encoding the
  preprocessed column gives other vectors.
\<close>

theorem insights_features_from_raw_text:
  "p_X (prepare sample_libs sample_upload)
     = replicate 5 ''Fix the Login bug!'' @ replicate 5 ''Write the reports''
   \<and> l_encode sample_libs (p_processed (prepare sample_libs sample_upload))
     = replicate 5 ''fix login bug'' @ replicate 5 ''write report''
   \<and> p_X (prepare sample_libs sample_upload)
     \<noteq> l_encode sample_libs (p_processed (prepare sample_libs sample_upload))"
proof -
  have a: "p_X (prepare sample_libs sample_upload)
     = replicate 5 ''Fix the Login bug!'' @ replicate 5 ''Write the reports''"
    by code_simp
  have b: "l_encode sample_libs (p_processed (prepare sample_libs sample_upload))
     = replicate 5 ''fix login bug'' @ replicate 5 ''write report''"
    by code_simp
  have c: "replicate 5 ''Fix the Login bug!'' @ replicate 5 ''Write the reports''
     \<noteq> replicate 5 ''fix login bug'' @ replicate 5 ''write report''"
    by (simp add: eval_nat_numeral)
  show ?thesis unfolding a b by (intro conjI refl c)
qed

end
